theory Spec2Isabelle
  imports Complex_Main
begin

section \<open>The CSI processing server (src/docker/csi_processor.py)\<close>

text \<open>
  The embedding follows the class \<open>CSIProcessor\<close>. Its attributes become the fields of a
  record that every method takes and returns; the two effects of the class on the outside
  world, \<open>mqtt_client.publish\<close> and the logger, become two lists in that record, to which a
  call appends. An exception is a value of the type \<open>exn\<close>; a method that can raise
  returns the state it reached together with the exception, since Python keeps every
  mutation made before the \<open>raise\<close>.

  Numbers are idealised: a JSON or YAML number is a \<open>real\<close>, and NumPy's float64 and
  int64 arithmetic is the arithmetic of the reals, with one exception that is kept: a
  NumPy scalar division follows IEEE 754 and does not raise on a zero divisor, it gives
  \<open>inf\<close>, \<open>-inf\<close> or \<open>nan\<close> (and a RuntimeWarning). These three results are the one
  value \<open>NonFinite\<close> here. So the model has no rounding (of a quotient, of \<open>round(v, 2)\<close>,
  of a denominator that is zero only in exact arithmetic), no int64 wrap-around, no
  overflow of \<open>10 ** e\<close> to \<open>inf\<close> and no OverflowError for a JSON integer beyond the
  float64 range. A statement below that depends on the value of a distance is made for
  signal strengths on which the code stays inside these ranges (\<open>usable_signal\<close>); the
  examples use small integers, on which every step of the code is exact.
\<close>

subsection \<open>Values, exceptions, records\<close>

datatype pyval =
    PNone
  | PBool bool
  | PNum real
  | PStr string
  | PList "pyval list"
  | PDict "(string \<times> pyval) list"

datatype exn =
    KeyError string
  | TypeError
  | IndexError
  | AttributeError
  | UnicodeDecodeError
  | JSONDecodeError

datatype npfloat = Finite real | NonFinite

datatype outval = OFloat npfloat | OStr string

text \<open>The dictionary that \<open>process_csi_data\<close> appends to a node's deque.\<close>

record measurement =
  timestamp :: pyval
  rssi :: pyval
  csi_data :: pyval
  channel :: pyval
  rate :: pyval

text \<open>The dictionary that \<open>update_node_stats\<close> stores under a node.\<close>

record node_stats =
  packets :: pyval
  enabled :: pyval
  uptime :: pyval
  last_seen :: string

datatype log_entry =
    Error_processing_message exn
  | Error_calculating_position exn
  | Trilateration_error exn
  | Published_position "npfloat \<times> npfloat"

text \<open>
  \<open>node_positions\<close>, \<open>nodes\<close> and \<open>csi_buffer\<close> are Python dictionaries, which iterate in
  insertion order: association lists. \<open>published\<close> holds the (topic, payload) pairs
  handed to \<open>mqtt_client.publish\<close>, oldest first, each payload being the dictionary
  before \<open>json.dumps\<close>; \<open>logged\<close> holds the logger's records. The attribute
  \<open>positions\<close> is never read or written after its creation and is left out.
\<close>

record processor =
  node_positions :: "(string \<times> real list) list"
  nodes :: "(string \<times> node_stats) list"
  csi_buffer :: "(string \<times> measurement list) list"
  published :: "(string \<times> (string \<times> outval) list) list"
  logged :: "log_entry list"

record mqtt_msg =
  topic :: string
  payload :: string

definition init :: "(string \<times> real list) list \<Rightarrow> processor" where
  "init config_node_positions =
     \<lparr>node_positions = config_node_positions, nodes = [], csi_buffer = [],
      published = [], logged = []\<rparr>"

subsection \<open>Python's built-in operations\<close>

text \<open>\<open>d[k] = v\<close> on a dictionary: an existing key keeps its place, a new one goes last.\<close>

fun dict_setitem :: "'k \<Rightarrow> 'v \<Rightarrow> ('k \<times> 'v) list \<Rightarrow> ('k \<times> 'v) list" where
  "dict_setitem k v [] = [(k, v)]"
| "dict_setitem k v ((k', v') # d) =
     (if k' = k then (k, v) # d else (k', v') # dict_setitem k v d)"

text \<open>\<open>s.split(sep)\<close> for a one-character separator.\<close>

fun split_str :: "char \<Rightarrow> string \<Rightarrow> string list" where
  "split_str sep [] = [[]]"
| "split_str sep (c # cs) =
     (if c = sep then [] # split_str sep cs
      else (case split_str sep cs of
              [] \<Rightarrow> [[c]]
            | w # ws \<Rightarrow> (c # w) # ws))"

text \<open>\<open>data[key]\<close> with a string key: only a dictionary can be subscripted by a string.\<close>

fun getitem :: "pyval \<Rightarrow> string \<Rightarrow> exn + pyval" where
  "getitem (PDict d) k = (case map_of d k of None \<Rightarrow> Inl (KeyError k) | Some v \<Rightarrow> Inr v)"
| "getitem PNone k = Inl TypeError"
| "getitem (PBool b) k = Inl TypeError"
| "getitem (PNum r) k = Inl TypeError"
| "getitem (PStr s) k = Inl TypeError"
| "getitem (PList l) k = Inl TypeError"

text \<open>\<open>data.get(key, default)\<close>: only a dictionary has the method.\<close>

fun dict_get :: "pyval \<Rightarrow> string \<Rightarrow> pyval \<Rightarrow> exn + pyval" where
  "dict_get (PDict d) k dflt = Inr (case map_of d k of None \<Rightarrow> dflt | Some v \<Rightarrow> v)"
| "dict_get PNone k dflt = Inl AttributeError"
| "dict_get (PBool b) k dflt = Inl AttributeError"
| "dict_get (PNum r) k dflt = Inl AttributeError"
| "dict_get (PStr s) k dflt = Inl AttributeError"
| "dict_get (PList l) k dflt = Inl AttributeError"

text \<open>
  \<open>deque(maxlen=100).append(x)\<close>: the item is added on the right and, if the deque is then
  longer than \<open>maxlen\<close>, one item is removed on the left.
\<close>

definition maxlen :: nat where
  "maxlen = 100"

definition deque_append :: "'a \<Rightarrow> 'a list \<Rightarrow> 'a list" where
  "deque_append x buffer =
     (let b = buffer @ [x] in if length b > maxlen then tl b else b)"

text \<open>
  \<open>self.csi_buffer[node_mac]\<close> on the \<open>defaultdict\<close>: a missing key is inserted with a new
  empty deque.
\<close>

definition buffer_getitem ::
  "string \<Rightarrow> (string \<times> measurement list) list \<Rightarrow> (string \<times> measurement list) list" where
  "buffer_getitem node_mac buf =
     (case map_of buf node_mac of None \<Rightarrow> buf @ [(node_mac, [])] | Some b \<Rightarrow> buf)"

text \<open>The in-place \<open>append\<close> on the deque stored under \<open>node_mac\<close>.\<close>

fun buffer_append ::
  "string \<Rightarrow> measurement \<Rightarrow> (string \<times> measurement list) list \<Rightarrow> (string \<times> measurement list) list" where
  "buffer_append node_mac x [] = []"
| "buffer_append node_mac x ((k, b) # buf) =
     (if k = node_mac then (k, deque_append x b) # buf
      else (k, b) # buffer_append node_mac x buf)"

subsection \<open>NumPy\<close>

text \<open>
  \<open>np.mean\<close> of a list of JSON values. Numbers and booleans are averaged; for a list that
  holds \<open>None\<close>, a string or a dictionary NumPy raises a TypeError. A signal strength that
  is itself a list is outside the model, which raises there too (NumPy averages nested
  lists of equal shape, and gives \<open>nan\<close> for empty ones); the statements about distances
  assume numeric signal strengths. The function is only called on a non-empty list.
\<close>

fun as_number :: "pyval \<Rightarrow> real option" where
  "as_number (PNum r) = Some r"
| "as_number (PBool b) = Some (if b then 1 else 0)"
| "as_number PNone = None"
| "as_number (PStr s) = None"
| "as_number (PList l) = None"
| "as_number (PDict d) = None"

fun as_numbers :: "pyval list \<Rightarrow> real list option" where
  "as_numbers [] = Some []"
| "as_numbers (v # vs) =
     (case as_number v of
        None \<Rightarrow> None
      | Some r \<Rightarrow> (case as_numbers vs of None \<Rightarrow> None | Some rs \<Rightarrow> Some (r # rs)))"

definition np_mean :: "pyval list \<Rightarrow> exn + real" where
  "np_mean vs =
     (case as_numbers vs of
        None \<Rightarrow> Inl TypeError
      | Some rs \<Rightarrow> Inr (sum_list rs / real (length rs)))"

text \<open>Division of NumPy scalars: no exception on a zero divisor.\<close>

definition np_div :: "real \<Rightarrow> real \<Rightarrow> npfloat" where
  "np_div a b = (if b = 0 then NonFinite else Finite (a / b))"

text \<open>\<open>round(v, 2)\<close> on a float64: to the nearest hundredth, a tie to the even one.\<close>

definition rint :: "real \<Rightarrow> real" where
  "rint r =
     (let f = \<lfloor>r\<rfloor>; d = r - of_int f in
      if d < 1 / 2 then of_int f
      else if d > 1 / 2 then of_int (f + 1)
      else if even f then of_int f else of_int (f + 1))"

fun round2 :: "npfloat \<Rightarrow> npfloat" where
  "round2 (Finite r) = Finite (rint (r * 100) / 100)"
| "round2 NonFinite = NonFinite"

fun div100 :: "npfloat \<Rightarrow> npfloat" where
  "div100 (Finite r) = Finite (r / 100)"
| "div100 NonFinite = NonFinite"

text \<open>\<open>p[i]\<close> on the array made from a position of the configuration.\<close>

definition coord :: "real list \<Rightarrow> nat \<Rightarrow> exn + real" where
  "coord p i = (if i < length p then Inr (p ! i) else Inl IndexError)"

text \<open>Sequencing of steps that can raise: the first exception ends the sequence.\<close>

definition bind_exn :: "exn + 'a \<Rightarrow> ('a \<Rightarrow> exn + 'b) \<Rightarrow> exn + 'b" where
  "bind_exn m f = (case m of Inl e \<Rightarrow> Inl e | Inr x \<Rightarrow> f x)"

text \<open>\<open>xs[i]\<close> on a list and \<open>d[k]\<close> on a dictionary.\<close>

definition list_getitem :: "'a list \<Rightarrow> nat \<Rightarrow> exn + 'a" where
  "list_getitem xs i = (if i < length xs then Inr (xs ! i) else Inl IndexError)"

definition dict_getitem :: "(string \<times> 'v) list \<Rightarrow> string \<Rightarrow> exn + 'v" where
  "dict_getitem d k = (case map_of d k of None \<Rightarrow> Inl (KeyError k) | Some v \<Rightarrow> Inr v)"

subsection \<open>The methods of \<open>CSIProcessor\<close>\<close>

text \<open>
  The arithmetic of \<open>trilaterate\<close> on three positions and three distances, in the order of
  the source. The two quotients are NumPy divisions.
\<close>

definition trilateration_math ::
  "real list \<Rightarrow> real list \<Rightarrow> real list \<Rightarrow> real \<Rightarrow> real \<Rightarrow> real \<Rightarrow> exn + (npfloat \<times> npfloat)" where
  "trilateration_math p1 p2 p3 r1 r2 r3 =
     bind_exn (coord p2 0) (\<lambda>p2x. bind_exn (coord p1 0) (\<lambda>p1x.
     bind_exn (coord p2 1) (\<lambda>p2y. bind_exn (coord p1 1) (\<lambda>p1y.
     bind_exn (coord p3 0) (\<lambda>p3x. bind_exn (coord p3 1) (\<lambda>p3y.
       let A = 2 * p2x - 2 * p1x;
           B = 2 * p2y - 2 * p1y;
           C = r1 ^ 2 - r2 ^ 2 - p1x ^ 2 + p2x ^ 2 - p1y ^ 2 + p2y ^ 2;
           D = 2 * p3x - 2 * p2x;
           E = 2 * p3y - 2 * p2y;
           F = r2 ^ 2 - r3 ^ 2 - p2x ^ 2 + p3x ^ 2 - p2y ^ 2 + p3y ^ 2;
           x = np_div (C * E - F * B) (E * A - B * D);
           y = np_div (C * D - A * F) (B * D - A * E)
       in Inr (x, y)))))))"

text \<open>\<open>nodes = list(distances.keys())[:3]\<close>\<close>

definition select_nodes :: "(string \<times> real) list \<Rightarrow> string list" where
  "select_nodes distances = take 3 (map fst distances)"

definition trilaterate_body ::
  "(string \<times> real list) list \<Rightarrow> (string \<times> real) list \<Rightarrow> exn + (npfloat \<times> npfloat)" where
  "trilaterate_body positions distances =
     (let nodes = select_nodes distances in
      bind_exn (list_getitem nodes 0) (\<lambda>n0. bind_exn (dict_getitem positions n0) (\<lambda>p1.
      bind_exn (list_getitem nodes 1) (\<lambda>n1. bind_exn (dict_getitem positions n1) (\<lambda>p2.
      bind_exn (list_getitem nodes 2) (\<lambda>n2. bind_exn (dict_getitem positions n2) (\<lambda>p3.
      bind_exn (dict_getitem distances n0) (\<lambda>r1.
      bind_exn (dict_getitem distances n1) (\<lambda>r2.
      bind_exn (dict_getitem distances n2) (\<lambda>r3.
        trilateration_math p1 p2 p3 r1 r2 r3))))))))))"

text \<open>The \<open>try\<close> of \<open>trilaterate\<close>: any exception is logged and the result is \<open>None\<close>.\<close>

definition trilaterate ::
  "processor \<Rightarrow> (string \<times> real) list \<Rightarrow> processor \<times> (npfloat \<times> npfloat) option" where
  "trilaterate s distances =
     (case trilaterate_body (node_positions s) distances of
        Inl e \<Rightarrow> (s\<lparr>logged := logged s @ [Trilateration_error e]\<rparr>, None)
      | Inr position \<Rightarrow> (s, Some position))"

text \<open>
  \<open>publish_position\<close>; \<open>now\<close> is the text of \<open>datetime.now().isoformat()\<close> at the call.
\<close>

definition publish_position :: "string \<Rightarrow> processor \<Rightarrow> npfloat \<times> npfloat \<Rightarrow> processor" where
  "publish_position now s position =
     (let payload =
            [(''x'', OFloat (round2 (fst position))),
             (''y'', OFloat (round2 (snd position))),
             (''timestamp'', OStr now),
             (''confidence'', OFloat (Finite (8 / 10))),
             (''source'', OStr ''csi_trilateration'')];
          tracker_payload =
            [(''latitude'', OFloat (div100 (snd position))),
             (''longitude'', OFloat (div100 (fst position))),
             (''gps_accuracy'', OFloat (Finite 2)),
             (''source_type'', OStr ''router'')]
      in s\<lparr>published := published s
               @ [(''homeassistant/sensor/whofi_position/state'', payload),
                  (''homeassistant/device_tracker/whofi_tracker/attributes'', tracker_payload)],
            logged := logged s @ [Published_position position]\<rparr>)"

text \<open>
  The loop of \<open>calculate_position\<close> over \<open>self.csi_buffer.items()\<close>, with the dictionary
  \<open>distances\<close> as accumulator. \<open>list(buffer)[-10:]\<close> is the whole list when it has fewer
  than ten items, which is what the truncating subtraction gives.
\<close>

fun compute_distances ::
  "(string \<times> real list) list \<Rightarrow> (string \<times> measurement list) list \<Rightarrow> (string \<times> real) list
     \<Rightarrow> exn + (string \<times> real) list" where
  "compute_distances positions [] distances = Inr distances"
| "compute_distances positions ((node_mac, buffer) # items) distances =
     (if map_of positions node_mac \<noteq> None \<and> length buffer > 0 then
        (let recent_rssi = map rssi (drop (length buffer - 10) buffer) in
         case np_mean recent_rssi of
           Inl e \<Rightarrow> Inl e
         | Inr avg_rssi \<Rightarrow>
             (let A = - 30;
                  n = 2;
                  distance = 10 powr ((A - avg_rssi) / (10 * n))
              in compute_distances positions items (dict_setitem node_mac distance distances)))
      else compute_distances positions items distances)"

definition calculate_position :: "string \<Rightarrow> processor \<Rightarrow> processor" where
  "calculate_position now s =
     (case compute_distances (node_positions s) (csi_buffer s) [] of
        Inl e \<Rightarrow> s\<lparr>logged := logged s @ [Error_calculating_position e]\<rparr>
      | Inr distances \<Rightarrow>
          if length distances \<ge> 3 then
            (case trilaterate s distances of
               (s', None) \<Rightarrow> s'
             | (s', Some position) \<Rightarrow> publish_position now s' position)
          else s)"

text \<open>
  The dictionary literal of \<open>process_csi_data\<close>, its items evaluated from top to bottom.
\<close>

definition make_entry :: "pyval \<Rightarrow> exn + measurement" where
  "make_entry data =
     bind_exn (getitem data ''timestamp'') (\<lambda>t.
     bind_exn (getitem data ''rssi'') (\<lambda>r.
     bind_exn (dict_get data ''csi_data'' (PList [])) (\<lambda>c.
     bind_exn (getitem data ''channel'') (\<lambda>ch.
     bind_exn (getitem data ''rate'') (\<lambda>ra.
       Inr \<lparr>timestamp = t, rssi = r, csi_data = c, channel = ch, rate = ra\<rparr>)))))"

text \<open>
  \<open>process_csi_data\<close>. Python evaluates \<open>self.csi_buffer[node_mac].append\<close> before the
  argument of the call, so the \<open>defaultdict\<close> has its entry before the literal can raise.
\<close>

definition process_csi_data ::
  "string \<Rightarrow> processor \<Rightarrow> string \<Rightarrow> pyval \<Rightarrow> processor \<times> exn option" where
  "process_csi_data now s node_mac data =
     (let s1 = s\<lparr>csi_buffer := buffer_getitem node_mac (csi_buffer s)\<rparr> in
      case make_entry data of
        Inl e \<Rightarrow> (s1, Some e)
      | Inr entry \<Rightarrow>
          (let s2 = s1\<lparr>csi_buffer := buffer_append node_mac entry (csi_buffer s1)\<rparr> in
           if length (csi_buffer s2) \<ge> 3 then (calculate_position now s2, None)
           else (s2, None)))"

text \<open>\<open>update_node_stats\<close>; \<open>now\<close> stands for \<open>datetime.now()\<close>.\<close>

definition update_node_stats ::
  "string \<Rightarrow> processor \<Rightarrow> string \<Rightarrow> pyval \<Rightarrow> processor \<times> exn option" where
  "update_node_stats now s node_mac stats =
     (case bind_exn (dict_get stats ''packets'' (PNum 0)) (\<lambda>p.
           bind_exn (dict_get stats ''enabled'' (PBool False)) (\<lambda>e.
           bind_exn (dict_get stats ''uptime'' (PNum 0)) (\<lambda>u.
             Inr \<lparr>packets = p, enabled = e, uptime = u, last_seen = now\<rparr>))) of
        Inl e \<Rightarrow> (s, Some e)
      | Inr st \<Rightarrow> (s\<lparr>nodes := dict_setitem node_mac st (nodes s)\<rparr>, None))"

text \<open>
  The body of the \<open>try\<close> in \<open>on_message\<close>. \<open>loads\<close> stands for
  \<open>json.loads(msg.payload.decode())\<close>, which is library code: it gives the decoded value
  or the exception of a payload that is not UTF-8 or not JSON.
\<close>

definition on_message_body ::
  "(string \<Rightarrow> exn + pyval) \<Rightarrow> string \<Rightarrow> processor \<Rightarrow> mqtt_msg \<Rightarrow> processor \<times> exn option" where
  "on_message_body loads now s msg =
     (let topic_parts = split_str (CHR ''/'') (topic msg) in
      if length topic_parts \<ge> 4 then
        (let node_mac = topic_parts ! 2;
             data_type = topic_parts ! 3
         in case loads (payload msg) of
              Inl e \<Rightarrow> (s, Some e)
            | Inr pl \<Rightarrow>
                if data_type = ''data'' then process_csi_data now s node_mac pl
                else if data_type = ''stats'' then update_node_stats now s node_mac pl
                else (s, None))
      else (s, None))"

text \<open>\<open>on_message\<close>: the \<open>except Exception\<close> logs what the body raised.\<close>

definition on_message ::
  "(string \<Rightarrow> exn + pyval) \<Rightarrow> string \<Rightarrow> processor \<Rightarrow> mqtt_msg \<Rightarrow> processor" where
  "on_message loads now s msg =
     (case on_message_body loads now s msg of
        (s', Some e) \<Rightarrow> s'\<lparr>logged := logged s' @ [Error_processing_message e]\<rparr>
      | (s', None) \<Rightarrow> s')"

text \<open>
  The MQTT loop calls \<open>on_message\<close> once per received message, one after the other. A
  received message comes with the clock reading of its handling.
\<close>

fun ingest ::
  "(string \<Rightarrow> exn + pyval) \<Rightarrow> processor \<Rightarrow> (string \<times> mqtt_msg) list \<Rightarrow> processor" where
  "ingest loads s [] = s"
| "ingest loads s ((now, msg) # msgs) = ingest loads (on_message loads now s msg) msgs"

subsection \<open>Notions used to state the properties\<close>

text \<open>
  The nodes that can contribute to a solve, in the iteration order of \<open>csi_buffer\<close>: those
  with a position in the configuration and at least one buffered measurement.
\<close>

definition qualifying_nodes :: "processor \<Rightarrow> string list" where
  "qualifying_nodes s =
     map fst (filter (\<lambda>(node_mac, buffer). map_of (node_positions s) node_mac \<noteq> None \<and> buffer \<noteq> [])
                     (csi_buffer s))"

text \<open>
  The distance estimate as the specification words it, for one buffer, oldest measurement
  first: nothing for an empty buffer, otherwise the path-loss formula with reference \<open>-30\<close>
  and exponent \<open>2\<close> at the mean of the signal strengths of the last \<open>min(10, size)\<close>
  measurements. \<open>recent_signal\<close> gives those signal strengths when all of them are
  numbers.
\<close>

definition spec_recent :: "nat \<Rightarrow> 'a list \<Rightarrow> 'a list" where
  "spec_recent k xs = drop (length xs - min k (length xs)) xs"

definition recent_signal :: "measurement list \<Rightarrow> real list option" where
  "recent_signal buffer = as_numbers (map rssi (spec_recent 10 buffer))"

definition spec_estimate_distance :: "measurement list \<Rightarrow> real option" where
  "spec_estimate_distance buffer =
     (if buffer = [] then None
      else case recent_signal buffer of
             None \<Rightarrow> None
           | Some recent \<Rightarrow>
               let m = sum_list recent / real (length recent)
               in Some (10 powr ((- 30 - m) / 20)))"

text \<open>
  The buffers on which the real arithmetic of this model describes the float64 arithmetic
  of the code up to rounding: the recent signal strengths are numbers of magnitude at most
  6000, so that their mean is finite and \<open>10 ** ((-30 - m) / 20)\<close> lies between
  \<open>10 ** -302\<close> and \<open>10 ** 299\<close>, inside the range of float64.
\<close>

definition usable_signal :: "measurement list \<Rightarrow> bool" where
  "usable_signal buffer =
     (case recent_signal buffer of
        None \<Rightarrow> False
      | Some recent \<Rightarrow> list_all (\<lambda>r. \<bar>r\<bar> \<le> 6000) recent)"

text \<open>
  The values for which \<open>np.mean\<close> raises wherever they stand in its argument: \<open>None\<close>, a
  string, a dictionary.
\<close>

fun unaveragable :: "pyval \<Rightarrow> bool" where
  "unaveragable PNone = True"
| "unaveragable (PStr s) = True"
| "unaveragable (PDict d) = True"
| "unaveragable (PBool b) = False"
| "unaveragable (PNum r) = False"
| "unaveragable (PList l) = False"

text \<open>
  Two states have the same pipeline data when they agree on the buffers, on what has been
  published and on the configured positions; the stats records and the log may differ.
\<close>

definition same_pipeline :: "processor \<Rightarrow> processor \<Rightarrow> bool" where
  "same_pipeline s t \<longleftrightarrow>
     csi_buffer s = csi_buffer t \<and> published s = published t \<and> node_positions s = node_positions t"

text \<open>
  A computed point is near a given one, up to a tolerance, when both coordinates are
  finite and differ from the given ones by at most the tolerance.
\<close>

definition near :: "real \<Rightarrow> npfloat \<times> npfloat \<Rightarrow> real \<times> real \<Rightarrow> bool" where
  "near tol p q =
     (case p of
        (Finite x, Finite y) \<Rightarrow> \<bar>x - fst q\<bar> \<le> tol \<and> \<bar>y - snd q\<bar> \<le> tol
      | (Finite x, NonFinite) \<Rightarrow> False
      | (NonFinite, y) \<Rightarrow> False)"

text \<open>
  The two records that \<open>publish_position\<close> sends, by topic and field names.
\<close>

definition result_fields :: "string \<times> (string \<times> outval) list \<Rightarrow> bool" where
  "result_fields m \<longleftrightarrow>
     fst m = ''homeassistant/sensor/whofi_position/state''
       \<and> map fst (snd m) = [''x'', ''y'', ''timestamp'', ''confidence'', ''source'']
     \<or> fst m = ''homeassistant/device_tracker/whofi_tracker/attributes''
       \<and> map fst (snd m) = [''latitude'', ''longitude'', ''gps_accuracy'', ''source_type'']"

text \<open>
  A decoder for the examples: the payload \<open>m\<close> is a complete measurement with signal
  strength \<open>-50\<close>, every other payload is not JSON.
\<close>

definition sample_loads :: "string \<Rightarrow> exn + pyval" where
  "sample_loads p =
     (if p = ''m''
      then Inr (PDict [(''timestamp'', PNum 1), (''rssi'', PNum (- 50)),
                       (''channel'', PNum 6), (''rate'', PNum 11)])
      else Inl JSONDecodeError)"

text \<open>
  The same decoder with one more payload: \<open>p\<close> is a dictionary that has only the field
  \<open>timestamp\<close>.
\<close>

definition sample_loads_partial :: "string \<Rightarrow> exn + pyval" where
  "sample_loads_partial p =
     (if p = ''p'' then Inr (PDict [(''timestamp'', PNum 1)]) else sample_loads p)"

section \<open>Properties\<close>

subsection \<open>The bounded buffer\<close>

lemma length_deque_append: "length b \<le> maxlen \<Longrightarrow> length (deque_append x b) \<le> maxlen"
  by (auto simp: deque_append_def Let_def)

lemma deque_append_eq: "deque_append x b = drop (length (b @ [x]) - maxlen) (b @ [x])"
  if "length b \<le> maxlen"
proof (cases "length b = maxlen")
  case True
  then have "length (b @ [x]) - maxlen = Suc 0" by simp
  moreover have "deque_append x b = tl (b @ [x])"
    using True by (simp add: deque_append_def Let_def)
  moreover have "b \<noteq> []" using True by (auto simp: maxlen_def)
  ultimately show ?thesis by (simp add: drop_Suc del: drop_append length_append)
next
  case False
  with that have "length (b @ [x]) - maxlen = 0" by simp
  moreover have "deque_append x b = b @ [x]"
    using False that by (simp add: deque_append_def Let_def)
  ultimately show ?thesis by simp
qed

lemma drop_excess_append:
  "drop (length (drop (length ys - M) ys @ ms) - M) (drop (length ys - M) ys @ ms)
     = drop (length (ys @ ms) - M) (ys @ ms)"
proof -
  let ?j = "length ys - M"
  have e1: "drop ?j ys @ ms = drop ?j (ys @ ms)" by simp
  have e2: "length (drop ?j (ys @ ms)) - M + ?j = length (ys @ ms) - M"
    by (simp del: drop_append)
  show ?thesis
    unfolding e1 by (simp only: drop_drop e2)
qed

lemma foldl_deque_append:
  "length b \<le> maxlen \<Longrightarrow>
   foldl (\<lambda>b x. deque_append x b) b ms = drop (length (b @ ms) - maxlen) (b @ ms)"
proof (induction ms arbitrary: b)
  case Nil
  then show ?case by simp
next
  case (Cons m ms)
  have le: "length (deque_append m b) \<le> maxlen"
    using Cons.prems by (rule length_deque_append)
  have "foldl (\<lambda>b x. deque_append x b) (deque_append m b) ms
        = drop (length (deque_append m b @ ms) - maxlen) (deque_append m b @ ms)"
    using Cons.IH [OF le] .
  also have "\<dots> = drop (length ((b @ [m]) @ ms) - maxlen) ((b @ [m]) @ ms)"
    unfolding deque_append_eq [OF Cons.prems] by (rule drop_excess_append)
  finally show ?case by simp
qed

lemma map_of_buffer_append:
  "map_of (buffer_append k x buf) k' =
     (if k' = k then map_option (deque_append x) (map_of buf k) else map_of buf k')"
  by (induction buf) auto

lemma map_of_foldl_buffer_append:
  "map_of buf k = Some b \<Longrightarrow>
   map_of (foldl (\<lambda>buf x. buffer_append k x buf) buf ms) k
     = Some (foldl (\<lambda>b x. deque_append x b) b ms)"
  by (induction ms arbitrary: buf b) (auto simp: map_of_buffer_append)

text \<open>
  Claim C4. For every node, after more than 100 measurements have been appended to its
  deque (which held at most 100 before), the deque holds exactly the last 100 of them in
  arrival order. One append never makes the deque longer than 100, always puts the new
  measurement last, and on a full deque drops the oldest one.
\<close>

theorem buffer_holds_last_100:
  assumes "map_of buf node_mac = Some b" and "length b \<le> 100" and "length ms > 100"
  shows "map_of (foldl (\<lambda>buf x. buffer_append node_mac x buf) buf ms) node_mac
           = Some (drop (length ms - 100) ms)
         \<and> length (drop (length ms - 100) ms) = 100
         \<and> length (deque_append x b) \<le> 100
         \<and> last (deque_append x b) = x
         \<and> (if length b = 100 then deque_append x b = tl b @ [x]
            else deque_append x b = b @ [x])"
proof -
  have b: "length b \<le> maxlen" using assms(2) by (simp add: maxlen_def)
  have "foldl (\<lambda>b x. deque_append x b) b ms = drop (length (b @ ms) - maxlen) (b @ ms)"
    using b by (rule foldl_deque_append)
  also have "\<dots> = drop (length ms - 100) ms"
    using assms(2,3) by (simp add: maxlen_def)
  finally have 1: "map_of (foldl (\<lambda>buf x. buffer_append node_mac x buf) buf ms) node_mac
           = Some (drop (length ms - 100) ms)"
    using map_of_foldl_buffer_append [OF assms(1)] by simp
  have 2: "length (drop (length ms - 100) ms) = 100" using assms(3) by simp
  have 3: "length (deque_append x b) \<le> 100"
    using length_deque_append [OF b] by (simp add: maxlen_def)
  have 4: "last (deque_append x b) = x"
    by (cases b) (auto simp: deque_append_def Let_def maxlen_def)
  have 5: "(if length b = 100 then deque_append x b = tl b @ [x]
            else deque_append x b = b @ [x])"
    using assms(2) by (cases b) (auto simp: deque_append_def Let_def maxlen_def)
  from 1 2 3 4 5 show ?thesis by blast
qed


theorem buffer_holds_last_100_witness:
  "map_of [(''n1'', [])] ''n1'' = Some []
   \<and> length ([] :: measurement list) \<le> 100
   \<and> length (map (\<lambda>i. \<lparr>timestamp = PNum (real i), rssi = PNum (- 40), csi_data = PList [],
                          channel = PNum 6, rate = PNum 11\<rparr>) [0..<101]) > 100
   \<and> map_of (foldl (\<lambda>buf x. buffer_append ''n1'' x buf) [(''n1'', [])]
        (map (\<lambda>i. \<lparr>timestamp = PNum (real i), rssi = PNum (- 40), csi_data = PList [],
                     channel = PNum 6, rate = PNum 11\<rparr>) [0..<101])) ''n1''
       = Some (map (\<lambda>i. \<lparr>timestamp = PNum (real i), rssi = PNum (- 40), csi_data = PList [],
                           channel = PNum 6, rate = PNum 11\<rparr>) [1..<101])"
proof -
  let ?ms = "map (\<lambda>i. \<lparr>timestamp = PNum (real i), rssi = PNum (- 40), csi_data = PList [],
                         channel = PNum 6, rate = PNum 11\<rparr>) [0..<101]"
  have h1: "map_of [(''n1'', [] :: measurement list)] ''n1'' = Some []" by simp
  have h2: "length ([] :: measurement list) \<le> 100" by simp
  have h3: "length ?ms > 100" by simp
  have "drop (length ?ms - 100) ?ms
        = map (\<lambda>i. \<lparr>timestamp = PNum (real i), rssi = PNum (- 40), csi_data = PList [],
                     channel = PNum 6, rate = PNum 11\<rparr>) [1..<101]"
    by (simp add: drop_map)
  then show ?thesis
    using h1 h2 h3 buffer_holds_last_100 [OF h1 h2 h3] by simp
qed

subsection \<open>The distance estimate\<close>

lemma map_of_dict_setitem: "map_of (dict_setitem k v d) = (map_of d)(k \<mapsto> v)"
  by (induction d) (auto simp: fun_eq_iff)

lemma dict_setitem_new: "k \<notin> fst ` set d \<Longrightarrow> dict_setitem k v d = d @ [(k, v)]"
  by (induction d) auto

lemma spec_recent_10: "spec_recent 10 xs = drop (length xs - 10) xs"
  by (simp add: spec_recent_def min_def)

lemma unaveragable_not_numbers: "list_ex unaveragable vs \<Longrightarrow> as_numbers vs = None"
proof (induction vs)
  case Nil
  then show ?case by simp
next
  case (Cons v vs)
  show ?case
  proof (cases "unaveragable v")
    case True
    then have "as_number v = None" by (cases v) auto
    then show ?thesis by simp
  next
    case False
    then have "as_numbers vs = None" using Cons by simp
    then show ?thesis by (simp split: option.splits)
  qed
qed

text \<open>One pass of the loop: the node is skipped, \<open>np.mean\<close> raises, or a distance is set.\<close>

lemma loop_step_skip:
  assumes "map_of positions k = None \<or> buffer = []"
  shows "compute_distances positions ((k, buffer) # items) acc
           = compute_distances positions items acc"
  using assms by auto

lemma loop_step_raises:
  assumes "map_of positions k \<noteq> None" and "buffer \<noteq> []" and "recent_signal buffer = None"
  shows "compute_distances positions ((k, buffer) # items) acc = Inl TypeError"
  using assms by (simp add: recent_signal_def spec_recent_10 np_mean_def Let_def)

lemma loop_step_sets:
  assumes "map_of positions k \<noteq> None" and "buffer \<noteq> []" and "recent_signal buffer = Some rs"
  shows "\<exists>r. spec_estimate_distance buffer = Some r
              \<and> r = 10 powr ((- 30 - sum_list rs / real (length rs)) / 20)
              \<and> compute_distances positions ((k, buffer) # items) acc
                   = compute_distances positions items (dict_setitem k r acc)"
  using assms
  by (simp add: recent_signal_def spec_recent_10 np_mean_def Let_def spec_estimate_distance_def)

text \<open>When the loop completes, the distances it recorded are the estimates of the buffers.\<close>

lemma compute_distances_complete:
  assumes "distinct (map fst items)"
    and "compute_distances positions items acc = Inr distances"
  shows "map_of distances k =
           (case map_of items k of
              None \<Rightarrow> map_of acc k
            | Some buffer \<Rightarrow>
                if map_of positions k = None \<or> buffer = [] then map_of acc k
                else spec_estimate_distance buffer)"
  using assms
proof (induction items arbitrary: acc)
  case Nil
  then show ?case by simp
next
  case (Cons item items)
  obtain k0 b0 where item: "item = (k0, b0)" by (cases item)
  have d: "distinct (map fst items)" and new: "map_of items k0 = None"
    using Cons.prems(1) item by (auto simp: map_of_eq_None_iff)
  show ?case
  proof (cases "map_of positions k0 = None \<or> b0 = []")
    case True
    then have "compute_distances positions items acc = Inr distances"
      using Cons.prems(2) item loop_step_skip [of positions k0 b0 items acc] by simp
    from Cons.IH [OF d this] show ?thesis
      using True item new by (auto split: option.splits)
  next
    case False
    then have q: "map_of positions k0 \<noteq> None" "b0 \<noteq> []" by auto
    have "recent_signal b0 \<noteq> None"
      using Cons.prems(2) item loop_step_raises [OF q, of items acc] by auto
    then obtain rs where "recent_signal b0 = Some rs" by auto
    from loop_step_sets [OF q this, of items acc] obtain r where
      e: "spec_estimate_distance b0 = Some r"
      and step: "compute_distances positions ((k0, b0) # items) acc
                   = compute_distances positions items (dict_setitem k0 r acc)"
      by blast
    have "compute_distances positions items (dict_setitem k0 r acc) = Inr distances"
      using Cons.prems(2) item step by simp
    from Cons.IH [OF d this] show ?thesis
      using False item new e by (auto simp: map_of_dict_setitem split: option.splits)
  qed
qed

lemma compute_distances_returns:
  assumes "\<forall>(k, buffer) \<in> set items.
             map_of positions k \<noteq> None \<and> buffer \<noteq> [] \<longrightarrow> recent_signal buffer \<noteq> None"
  shows "\<exists>distances. compute_distances positions items acc = Inr distances"
  using assms
proof (induction items arbitrary: acc)
  case Nil
  then show ?case by simp
next
  case (Cons item items)
  obtain k0 b0 where item: "item = (k0, b0)" by (cases item)
  have rest: "\<forall>(k, buffer) \<in> set items.
             map_of positions k \<noteq> None \<and> buffer \<noteq> [] \<longrightarrow> recent_signal buffer \<noteq> None"
    using Cons.prems by simp
  show ?case
  proof (cases "map_of positions k0 = None \<or> b0 = []")
    case True
    then show ?thesis
      using Cons.IH [OF rest, of acc] item loop_step_skip [of positions k0 b0 items acc] by simp
  next
    case False
    then have q: "map_of positions k0 \<noteq> None" "b0 \<noteq> []" by auto
    then obtain rs where "recent_signal b0 = Some rs" using Cons.prems item by auto
    from loop_step_sets [OF q this, of items acc] obtain r where
      "compute_distances positions ((k0, b0) # items) acc
         = compute_distances positions items (dict_setitem k0 r acc)"
      by blast
    then show ?thesis using Cons.IH [OF rest, of "dict_setitem k0 r acc"] item by simp
  qed
qed

lemma compute_distances_raises:
  assumes "(k, buffer) \<in> set items" and "map_of positions k \<noteq> None" and "buffer \<noteq> []"
    and "recent_signal buffer = None"
  shows "\<exists>e. compute_distances positions items acc = Inl e"
  using assms(1)
proof (induction items arbitrary: acc)
  case Nil
  then show ?case by simp
next
  case (Cons item items)
  obtain k0 b0 where item: "item = (k0, b0)" by (cases item)
  show ?case
  proof (cases "item = (k, buffer)")
    case True
    then show ?thesis using loop_step_raises [OF assms(2-4), of items acc] by simp
  next
    case False
    then have m: "(k, buffer) \<in> set items" using Cons.prems by simp
    show ?thesis
    proof (cases "map_of positions k0 = None \<or> b0 = []")
      case True
      then show ?thesis
        using Cons.IH [OF m, of acc] item loop_step_skip [of positions k0 b0 items acc] by simp
    next
      case nskip: False
      then have q: "map_of positions k0 \<noteq> None" "b0 \<noteq> []" by auto
      show ?thesis
      proof (cases "recent_signal b0")
        case None
        then show ?thesis using loop_step_raises [OF q, of items acc] item by simp
      next
        case (Some rs)
        from loop_step_sets [OF q this, of items acc] obtain r where
          "compute_distances positions ((k0, b0) # items) acc
             = compute_distances positions items (dict_setitem k0 r acc)"
          by blast
        then show ?thesis using Cons.IH [OF m, of "dict_setitem k0 r acc"] item by simp
      qed
    qed
  qed
qed

text \<open>
  Claim C5, as the code has it. If the recent signal strengths of every node with a
  position and a buffer are numbers of magnitude at most 6000, the loop of
  \<open>calculate_position\<close> completes, and the distance it records for a node is the
  specification's estimate for that node's buffer, \<open>10 ^ ((-30 - m) / 20)\<close> with \<open>m\<close> the
  mean over the last \<open>min(10, size)\<close> measurements, when the node has a position in the
  configuration; there is none for an empty buffer nor for any other node. If the recent
  signal strengths of one such node hold \<open>None\<close>, a string or a dictionary, the loop raises:
  no node gets a distance, nothing is published, the error is logged.
\<close>

theorem distance_estimate_per_node:
  assumes "distinct (map fst (csi_buffer s))"
  shows "((\<forall>(k, buffer) \<in> set (csi_buffer s).
             map_of (node_positions s) k \<noteq> None \<and> buffer \<noteq> [] \<longrightarrow> usable_signal buffer)
          \<longrightarrow> (\<exists>distances.
                 compute_distances (node_positions s) (csi_buffer s) [] = Inr distances
                 \<and> (\<forall>node_mac. map_of distances node_mac =
                       (case map_of (csi_buffer s) node_mac of
                          None \<Rightarrow> None
                        | Some buffer \<Rightarrow>
                            if map_of (node_positions s) node_mac = None then None
                            else spec_estimate_distance buffer))))
       \<and> ((\<exists>(k, buffer) \<in> set (csi_buffer s).
              map_of (node_positions s) k \<noteq> None \<and> buffer \<noteq> []
              \<and> list_ex unaveragable (map rssi (spec_recent 10 buffer)))
          \<longrightarrow> (\<exists>e. compute_distances (node_positions s) (csi_buffer s) [] = Inl e
                   \<and> calculate_position now s
                       = s\<lparr>logged := logged s @ [Error_calculating_position e]\<rparr>))"
proof (intro conjI impI)
  assume u: "\<forall>(k, buffer) \<in> set (csi_buffer s).
               map_of (node_positions s) k \<noteq> None \<and> buffer \<noteq> [] \<longrightarrow> usable_signal buffer"
  have "\<forall>(k, buffer) \<in> set (csi_buffer s).
          map_of (node_positions s) k \<noteq> None \<and> buffer \<noteq> [] \<longrightarrow> recent_signal buffer \<noteq> None"
    using u by (auto simp: usable_signal_def split: option.splits)
  then obtain distances where
    r: "compute_distances (node_positions s) (csi_buffer s) [] = Inr distances"
    using compute_distances_returns by blast
  have "map_of distances node_mac =
          (case map_of (csi_buffer s) node_mac of
             None \<Rightarrow> None
           | Some buffer \<Rightarrow>
               if map_of (node_positions s) node_mac = None then None
               else spec_estimate_distance buffer)" for node_mac
    using compute_distances_complete [OF assms r, of node_mac]
    by (auto simp: spec_estimate_distance_def split: option.splits)
  with r show "\<exists>distances.
                 compute_distances (node_positions s) (csi_buffer s) [] = Inr distances
                 \<and> (\<forall>node_mac. map_of distances node_mac =
                       (case map_of (csi_buffer s) node_mac of
                          None \<Rightarrow> None
                        | Some buffer \<Rightarrow>
                            if map_of (node_positions s) node_mac = None then None
                            else spec_estimate_distance buffer))"
    by blast
next
  assume "\<exists>(k, buffer) \<in> set (csi_buffer s).
              map_of (node_positions s) k \<noteq> None \<and> buffer \<noteq> []
              \<and> list_ex unaveragable (map rssi (spec_recent 10 buffer))"
  then obtain k buffer where m: "(k, buffer) \<in> set (csi_buffer s)"
    and q: "map_of (node_positions s) k \<noteq> None" "buffer \<noteq> []"
    and x: "list_ex unaveragable (map rssi (spec_recent 10 buffer))"
    by auto
  have "recent_signal buffer = None"
    using unaveragable_not_numbers [OF x] by (simp add: recent_signal_def)
  from compute_distances_raises [OF m q this] obtain e where
    e: "compute_distances (node_positions s) (csi_buffer s) [] = Inl e"
    by blast
  then have "calculate_position now s = s\<lparr>logged := logged s @ [Error_calculating_position e]\<rparr>"
    by (simp add: calculate_position_def)
  with e show "\<exists>e. compute_distances (node_positions s) (csi_buffer s) [] = Inl e
                   \<and> calculate_position now s
                       = s\<lparr>logged := logged s @ [Error_calculating_position e]\<rparr>"
    by blast
qed

theorem distance_estimate_per_node_witness:
  "(distinct (map fst [(''a'', [\<lparr>timestamp = PNum 1, rssi = PNum (- 50), csi_data = PList [], channel = PNum 6, rate = PNum 11\<rparr>]), (''b'', [])])
    \<and> usable_signal [\<lparr>timestamp = PNum 1, rssi = PNum (- 50), csi_data = PList [], channel = PNum 6, rate = PNum 11\<rparr>]
    \<and> (\<exists>distances.
         compute_distances [(''a'', [0, 0]), (''b'', [10, 0])]
           [(''a'', [\<lparr>timestamp = PNum 1, rssi = PNum (- 50), csi_data = PList [], channel = PNum 6, rate = PNum 11\<rparr>]), (''b'', [])] [] = Inr distances
         \<and> map_of distances ''a'' = Some 10 \<and> map_of distances ''b'' = None))
   \<and> (distinct (map fst [(''a'', [\<lparr>timestamp = PNum 1, rssi = PNum (- 50), csi_data = PList [], channel = PNum 6, rate = PNum 11\<rparr>]), (''b'', [\<lparr>timestamp = PNum 2, rssi = PStr ''weak'', csi_data = PList [], channel = PNum 6, rate = PNum 11\<rparr>]), (''c'', [\<lparr>timestamp = PNum 1, rssi = PNum (- 50), csi_data = PList [], channel = PNum 6, rate = PNum 11\<rparr>])])
    \<and> (''b'', [\<lparr>timestamp = PNum 2, rssi = PStr ''weak'', csi_data = PList [], channel = PNum 6, rate = PNum 11\<rparr>]) \<in> set [(''a'', [\<lparr>timestamp = PNum 1, rssi = PNum (- 50), csi_data = PList [], channel = PNum 6, rate = PNum 11\<rparr>]), (''b'', [\<lparr>timestamp = PNum 2, rssi = PStr ''weak'', csi_data = PList [], channel = PNum 6, rate = PNum 11\<rparr>]), (''c'', [\<lparr>timestamp = PNum 1, rssi = PNum (- 50), csi_data = PList [], channel = PNum 6, rate = PNum 11\<rparr>])]
    \<and> map_of [(''a'', [0, 0 :: real]), (''b'', [10, 0]), (''c'', [5, 10])] ''b'' \<noteq> None
    \<and> list_ex unaveragable (map rssi (spec_recent 10 [\<lparr>timestamp = PNum 2, rssi = PStr ''weak'', csi_data = PList [], channel = PNum 6, rate = PNum 11\<rparr>]))
    \<and> (\<exists>e. compute_distances [(''a'', [0, 0]), (''b'', [10, 0]), (''c'', [5, 10])]
              [(''a'', [\<lparr>timestamp = PNum 1, rssi = PNum (- 50), csi_data = PList [], channel = PNum 6, rate = PNum 11\<rparr>]), (''b'', [\<lparr>timestamp = PNum 2, rssi = PStr ''weak'', csi_data = PList [], channel = PNum 6, rate = PNum 11\<rparr>]), (''c'', [\<lparr>timestamp = PNum 1, rssi = PNum (- 50), csi_data = PList [], channel = PNum 6, rate = PNum 11\<rparr>])] [] = Inl e))"
proof -
  let ?m = "\<lparr>timestamp = PNum 1, rssi = PNum (- 50), csi_data = PList [], channel = PNum 6, rate = PNum 11\<rparr>"
  let ?w = "\<lparr>timestamp = PNum 2, rssi = PStr ''weak'', csi_data = PList [], channel = PNum 6, rate = PNum 11\<rparr>"
  let ?s = "\<lparr>node_positions = [(''a'', [0, 0]), (''b'', [10, 0])], nodes = [],
             csi_buffer = [(''a'', [?m]), (''b'', [])], published = [], logged = []\<rparr>"
  let ?t = "\<lparr>node_positions = [(''a'', [0, 0]), (''b'', [10, 0]), (''c'', [5, 10])], nodes = [],
             csi_buffer = [(''a'', [?m]), (''b'', [?w]), (''c'', [?m])],
             published = [], logged = []\<rparr>"
  have h1: "distinct (map fst (csi_buffer ?s))" by simp
  have u: "usable_signal [?m]"
    by (simp add: usable_signal_def recent_signal_def spec_recent_def)
  have h2: "\<forall>(k, buffer) \<in> set (csi_buffer ?s).
              map_of (node_positions ?s) k \<noteq> None \<and> buffer \<noteq> [] \<longrightarrow> usable_signal buffer"
    using u by simp
  have e: "spec_estimate_distance [?m] = Some 10"
    by (simp add: spec_estimate_distance_def recent_signal_def spec_recent_def)
  from distance_estimate_per_node [OF h1, of "''t''"] h2 obtain distances where
    r: "compute_distances (node_positions ?s) (csi_buffer ?s) [] = Inr distances"
    and m: "\<forall>node_mac. map_of distances node_mac =
              (case map_of (csi_buffer ?s) node_mac of
                 None \<Rightarrow> None
               | Some buffer \<Rightarrow>
                   if map_of (node_positions ?s) node_mac = None then None
                   else spec_estimate_distance buffer)"
    by blast
  have a: "map_of distances ''a'' = Some 10" using spec [OF m, of "''a''"] e by simp
  have b: "map_of distances ''b'' = None"
    using spec [OF m, of "''b''"] by (simp add: spec_estimate_distance_def)
  have A: "\<exists>distances. compute_distances (node_positions ?s) (csi_buffer ?s) [] = Inr distances
            \<and> map_of distances ''a'' = Some 10 \<and> map_of distances ''b'' = None"
    using r a b by blast
  have g1: "distinct (map fst (csi_buffer ?t))" by simp
  have g2: "(''b'', [?w]) \<in> set (csi_buffer ?t)" by simp
  have g3: "map_of (node_positions ?t) ''b'' \<noteq> None" by simp
  have g4: "list_ex unaveragable (map rssi (spec_recent 10 [?w]))"
    by (simp add: spec_recent_def)
  have "\<exists>(k, buffer) \<in> set (csi_buffer ?t).
              map_of (node_positions ?t) k \<noteq> None \<and> buffer \<noteq> []
              \<and> list_ex unaveragable (map rssi (spec_recent 10 buffer))"
    using g2 g3 g4 by (intro bexI [of _ "(''b'', [?w])"]) auto
  with distance_estimate_per_node [OF g1, of "''t''"]
  have B: "\<exists>e. compute_distances (node_positions ?t) (csi_buffer ?t) [] = Inl e" by blast
  show ?thesis
    using h1 [unfolded processor.simps] u A [unfolded processor.simps]
      g1 [unfolded processor.simps] g2 [unfolded processor.simps]
      g3 [unfolded processor.simps] g4 B [unfolded processor.simps]
    by blast
qed

text \<open>
  Nodes \<open>a\<close>, \<open>b\<close>, \<open>c\<close> have a position and one measurement each; the signal strength
  of \<open>b\<close> is the string \<open>weak\<close>. The loop raises a TypeError, so \<open>a\<close> and \<open>c\<close> get no
  distance, and \<open>calculate_position\<close> only logs the error.
\<close>

theorem distance_estimate_counterexample:
  "compute_distances [(''a'', [0, 0]), (''b'', [10, 0]), (''c'', [5, 10])]
     [(''a'', [\<lparr>timestamp = PNum 1, rssi = PNum (- 50), csi_data = PList [], channel = PNum 6, rate = PNum 11\<rparr>]), (''b'', [\<lparr>timestamp = PNum 2, rssi = PStr ''weak'', csi_data = PList [], channel = PNum 6, rate = PNum 11\<rparr>]), (''c'', [\<lparr>timestamp = PNum 1, rssi = PNum (- 50), csi_data = PList [], channel = PNum 6, rate = PNum 11\<rparr>])] [] = Inl TypeError
   \<and> calculate_position ''t4''
       \<lparr>node_positions = [(''a'', [0, 0]), (''b'', [10, 0]), (''c'', [5, 10])], nodes = [],
         csi_buffer = [(''a'', [\<lparr>timestamp = PNum 1, rssi = PNum (- 50), csi_data = PList [], channel = PNum 6, rate = PNum 11\<rparr>]), (''b'', [\<lparr>timestamp = PNum 2, rssi = PStr ''weak'', csi_data = PList [], channel = PNum 6, rate = PNum 11\<rparr>]), (''c'', [\<lparr>timestamp = PNum 1, rssi = PNum (- 50), csi_data = PList [], channel = PNum 6, rate = PNum 11\<rparr>])],
         published = [], logged = []\<rparr>
     = \<lparr>node_positions = [(''a'', [0, 0]), (''b'', [10, 0]), (''c'', [5, 10])], nodes = [],
         csi_buffer = [(''a'', [\<lparr>timestamp = PNum 1, rssi = PNum (- 50), csi_data = PList [], channel = PNum 6, rate = PNum 11\<rparr>]), (''b'', [\<lparr>timestamp = PNum 2, rssi = PStr ''weak'', csi_data = PList [], channel = PNum 6, rate = PNum 11\<rparr>]), (''c'', [\<lparr>timestamp = PNum 1, rssi = PNum (- 50), csi_data = PList [], channel = PNum 6, rate = PNum 11\<rparr>])],
         published = [], logged = [Error_calculating_position TypeError]\<rparr>"
  by (simp add: calculate_position_def np_mean_def)

subsection \<open>The selection of the nodes\<close>

lemma compute_distances_keys:
  assumes "distinct (map fst items)" and "fst ` set acc \<inter> fst ` set items = {}"
    and "compute_distances positions items acc = Inr distances"
  shows "map fst distances =
           map fst acc @ map fst (filter (\<lambda>(k, buffer). map_of positions k \<noteq> None \<and> buffer \<noteq> []) items)"
  using assms
proof (induction items arbitrary: acc)
  case Nil
  then show ?case by simp
next
  case (Cons item items)
  obtain k buffer where item: "item = (k, buffer)" by (cases item)
  have d: "distinct (map fst items)" and k_items: "k \<notin> fst ` set items"
    using Cons.prems(1) item by auto
  have k_acc: "k \<notin> fst ` set acc" using Cons.prems(2) item by auto
  show ?case
  proof (cases "map_of positions k \<noteq> None \<and> buffer \<noteq> []")
    case True
    then obtain dist where
      r: "compute_distances positions items (dict_setitem k dist acc) = Inr distances"
      using Cons.prems(3) item by (auto simp: Let_def split: sum.splits)
    have acc': "dict_setitem k dist acc = acc @ [(k, dist)]"
      using k_acc by (rule dict_setitem_new)
    have "fst ` set (dict_setitem k dist acc) \<inter> fst ` set items = {}"
      using Cons.prems(2) k_items unfolding acc' by auto
    from Cons.IH [OF d this r] show ?thesis
      using True item by (simp add: acc')
  next
    case False
    then have r: "compute_distances positions items acc = Inr distances"
      using Cons.prems(3) item by auto
    have "fst ` set acc \<inter> fst ` set items = {}" using Cons.prems(2) by auto
    from Cons.IH [OF d this r] show ?thesis
      using False item by auto
  qed
qed

lemma distances_are_qualifying:
  assumes "distinct (map fst (csi_buffer s))"
    and "compute_distances (node_positions s) (csi_buffer s) [] = Inr distances"
  shows "map fst distances = qualifying_nodes s"
  using compute_distances_keys [OF assms(1) _ assms(2)] by (simp add: qualifying_nodes_def)

lemma distinct_qualifying_nodes:
  "distinct (map fst (csi_buffer s)) \<Longrightarrow> distinct (qualifying_nodes s)"
  unfolding qualifying_nodes_def by (rule distinct_map_filter)

lemma three_or_more: "3 \<le> length xs \<Longrightarrow> \<exists>a b c rest. xs = a # b # c # rest"
  by (cases xs; cases "tl xs"; cases "tl (tl xs)") auto

lemma bind_exn_simps:
  "bind_exn (Inl e) f = Inl e" "bind_exn (Inr x) f = f x"
  by (simp_all add: bind_exn_def)

lemma trilaterate_body_take:
  assumes "3 \<le> length distances"
  shows "trilaterate_body positions (take 3 distances) = trilaterate_body positions distances"
proof -
  obtain a b c rest where d: "distances = a # b # c # rest"
    using three_or_more [OF assms] by blast
  obtain n0 r0 n1 r1 n2 r2 where abc: "a = (n0, r0)" "b = (n1, r1)" "c = (n2, r2)"
    by (cases a, cases b, cases c) auto
  have t: "take 3 distances = [a, b, c]" unfolding d by (simp add: numeral_3_eq_3)
  have sel: "select_nodes distances = [n0, n1, n2]" "select_nodes [a, b, c] = [n0, n1, n2]"
    unfolding d abc by (simp_all add: select_nodes_def numeral_3_eq_3)
  have g: "list_getitem [n0, n1, n2] 0 = Inr n0" "list_getitem [n0, n1, n2] 1 = Inr n1"
    "list_getitem [n0, n1, n2] 2 = Inr n2"
    by (simp_all add: list_getitem_def numeral_2_eq_2)
  have l: "dict_getitem [a, b, c] n0 = dict_getitem distances n0"
    "dict_getitem [a, b, c] n1 = dict_getitem distances n1"
    "dict_getitem [a, b, c] n2 = dict_getitem distances n2"
    unfolding d abc by (simp_all add: dict_getitem_def)
  show ?thesis
    unfolding t trilaterate_body_def Let_def sel g bind_exn_simps l ..
qed

lemma distance_origin:
  assumes "distinct (map fst (csi_buffer s))"
    and "compute_distances (node_positions s) (csi_buffer s) [] = Inr distances"
    and "map_of distances k = Some r"
  shows "\<exists>buffer p. map_of (csi_buffer s) k = Some buffer \<and> map_of (node_positions s) k = Some p
           \<and> spec_estimate_distance buffer = Some r"
  using compute_distances_complete [OF assms(1,2), of k] assms(3)
  by (auto split: option.splits if_splits)

lemma trilaterate_body_first_three:
  assumes "distances = (n1, r1) # (n2, r2) # (n3, r3) # rest"
    and "n1 \<noteq> n2" and "n1 \<noteq> n3" and "n2 \<noteq> n3"
    and "map_of positions n1 = Some p1" and "map_of positions n2 = Some p2"
    and "map_of positions n3 = Some p3"
  shows "trilaterate_body positions distances = trilateration_math p1 p2 p3 r1 r2 r3"
proof -
  have sel: "select_nodes distances = [n1, n2, n3]"
    unfolding assms(1) by (simp add: select_nodes_def numeral_3_eq_3)
  have g: "list_getitem [n1, n2, n3] 0 = Inr n1" "list_getitem [n1, n2, n3] 1 = Inr n2"
    "list_getitem [n1, n2, n3] 2 = Inr n3"
    by (simp_all add: list_getitem_def numeral_2_eq_2)
  have p: "dict_getitem positions n1 = Inr p1" "dict_getitem positions n2 = Inr p2"
    "dict_getitem positions n3 = Inr p3"
    using assms(5-7) by (simp_all add: dict_getitem_def)
  have d: "dict_getitem distances n1 = Inr r1" "dict_getitem distances n2 = Inr r2"
    "dict_getitem distances n3 = Inr r3"
    unfolding assms(1) using assms(2-4) by (simp_all add: dict_getitem_def)
  show ?thesis
    unfolding trilaterate_body_def Let_def sel g bind_exn_simps p d ..
qed

text \<open>
  Claim C7. When \<open>calculate_position\<close> attempts a solve (the loop gave at least three
  distances), the nodes \<open>trilaterate\<close> selects are the first three qualifying nodes in the
  iteration order of \<open>csi_buffer\<close>: exactly three, all different. The solve is the
  arithmetic of \<open>trilaterate\<close> on the configured positions of these three nodes, in that
  order, and on the distances that \<open>distances\<close> holds for these same nodes; a fourth or
  later distance has no influence on the result. The selection is a function of the
  state, and the state is a function of the ingested sequence.
\<close>

theorem solve_uses_first_three_qualifying:
  assumes "distinct (map fst (csi_buffer s))"
    and "compute_distances (node_positions s) (csi_buffer s) [] = Inr distances"
    and "3 \<le> length distances"
  shows "select_nodes distances = take 3 (qualifying_nodes s)
         \<and> length (select_nodes distances) = 3
         \<and> distinct (select_nodes distances)
         \<and> trilaterate s distances = trilaterate s (take 3 distances)
         \<and> (\<exists>n1 n2 n3 p1 p2 p3 r1 r2 r3.
               select_nodes distances = [n1, n2, n3]
               \<and> map_of (node_positions s) n1 = Some p1
               \<and> map_of (node_positions s) n2 = Some p2
               \<and> map_of (node_positions s) n3 = Some p3
               \<and> map_of distances n1 = Some r1
               \<and> map_of distances n2 = Some r2
               \<and> map_of distances n3 = Some r3
               \<and> take 3 distances = [(n1, r1), (n2, r2), (n3, r3)]
               \<and> trilaterate s distances =
                   (case trilateration_math p1 p2 p3 r1 r2 r3 of
                      Inl e \<Rightarrow> (s\<lparr>logged := logged s @ [Trilateration_error e]\<rparr>, None)
                    | Inr position \<Rightarrow> (s, Some position)))"
proof -
  have q: "map fst distances = qualifying_nodes s"
    using assms(1,2) by (rule distances_are_qualifying)
  have 1: "select_nodes distances = take 3 (qualifying_nodes s)"
    by (simp add: select_nodes_def q)
  have 2: "length (select_nodes distances) = 3"
    using assms(3) by (simp add: select_nodes_def)
  have dq: "distinct (qualifying_nodes s)"
    using assms(1) by (rule distinct_qualifying_nodes)
  have 3: "distinct (select_nodes distances)"
    unfolding 1 using dq by (rule distinct_take)
  have 4: "trilaterate s distances = trilaterate s (take 3 distances)"
    by (simp add: trilaterate_def trilaterate_body_take [OF assms(3)])
  obtain a b c rest where d: "distances = a # b # c # rest"
    using three_or_more [OF assms(3)] by blast
  obtain n1 r1 n2 r2 n3 r3 where abc: "a = (n1, r1)" "b = (n2, r2)" "c = (n3, r3)"
    by (cases a, cases b, cases c) auto
  have shape: "distances = (n1, r1) # (n2, r2) # (n3, r3) # rest"
    unfolding d abc ..
  have "distinct (map fst distances)" unfolding q by (rule dq)
  then have ne: "n1 \<noteq> n2" "n1 \<noteq> n3" "n2 \<noteq> n3"
    unfolding shape by auto
  have m: "map_of distances n1 = Some r1" "map_of distances n2 = Some r2"
    "map_of distances n3 = Some r3"
    unfolding shape using ne by simp_all
  obtain b1 p1 where o1: "map_of (csi_buffer s) n1 = Some b1" "map_of (node_positions s) n1 = Some p1"
    "spec_estimate_distance b1 = Some r1"
    using distance_origin [OF assms(1,2) m(1)] by blast
  obtain b2 p2 where o2: "map_of (csi_buffer s) n2 = Some b2" "map_of (node_positions s) n2 = Some p2"
    "spec_estimate_distance b2 = Some r2"
    using distance_origin [OF assms(1,2) m(2)] by blast
  obtain b3 p3 where o3: "map_of (csi_buffer s) n3 = Some b3" "map_of (node_positions s) n3 = Some p3"
    "spec_estimate_distance b3 = Some r3"
    using distance_origin [OF assms(1,2) m(3)] by blast
  have sel: "select_nodes distances = [n1, n2, n3]"
    unfolding shape by (simp add: select_nodes_def numeral_3_eq_3)
  have tk: "take 3 distances = [(n1, r1), (n2, r2), (n3, r3)]"
    unfolding shape by (simp add: numeral_3_eq_3)
  have "trilaterate_body (node_positions s) distances = trilateration_math p1 p2 p3 r1 r2 r3"
    using shape ne o1(2) o2(2) o3(2) by (rule trilaterate_body_first_three)
  then have tr: "trilaterate s distances =
                   (case trilateration_math p1 p2 p3 r1 r2 r3 of
                      Inl e \<Rightarrow> (s\<lparr>logged := logged s @ [Trilateration_error e]\<rparr>, None)
                    | Inr position \<Rightarrow> (s, Some position))"
    by (simp add: trilaterate_def)
  have 5: "\<exists>n1 n2 n3 p1 p2 p3 r1 r2 r3.
               select_nodes distances = [n1, n2, n3]
               \<and> map_of (node_positions s) n1 = Some p1
               \<and> map_of (node_positions s) n2 = Some p2
               \<and> map_of (node_positions s) n3 = Some p3
               \<and> map_of distances n1 = Some r1
               \<and> map_of distances n2 = Some r2
               \<and> map_of distances n3 = Some r3
               \<and> take 3 distances = [(n1, r1), (n2, r2), (n3, r3)]
               \<and> trilaterate s distances =
                   (case trilateration_math p1 p2 p3 r1 r2 r3 of
                      Inl e \<Rightarrow> (s\<lparr>logged := logged s @ [Trilateration_error e]\<rparr>, None)
                    | Inr position \<Rightarrow> (s, Some position))"
    using sel o1 o2 o3 m tk tr by blast
  from 1 2 3 4 5 show ?thesis by blast
qed

theorem solve_uses_first_three_qualifying_witness:
  "distinct (map fst [(''a'', [\<lparr>timestamp = PNum 1, rssi = PNum (- 50), csi_data = PList [], channel = PNum 6, rate = PNum 11\<rparr>]),
          (''x'', [\<lparr>timestamp = PNum 2, rssi = PNum (- 50), csi_data = PList [], channel = PNum 6, rate = PNum 11\<rparr>]),
          (''b'', [\<lparr>timestamp = PNum 3, rssi = PNum (- 50), csi_data = PList [], channel = PNum 6, rate = PNum 11\<rparr>]),
          (''c'', [\<lparr>timestamp = PNum 4, rssi = PNum (- 50), csi_data = PList [], channel = PNum 6, rate = PNum 11\<rparr>]),
          (''d'', [\<lparr>timestamp = PNum 5, rssi = PNum (- 50), csi_data = PList [], channel = PNum 6, rate = PNum 11\<rparr>])])
   \<and> compute_distances [(''d'', [0, 10]), (''c'', [5, 10]), (''b'', [10, 0]), (''a'', [0, 0])]
         [(''a'', [\<lparr>timestamp = PNum 1, rssi = PNum (- 50), csi_data = PList [], channel = PNum 6, rate = PNum 11\<rparr>]),
          (''x'', [\<lparr>timestamp = PNum 2, rssi = PNum (- 50), csi_data = PList [], channel = PNum 6, rate = PNum 11\<rparr>]),
          (''b'', [\<lparr>timestamp = PNum 3, rssi = PNum (- 50), csi_data = PList [], channel = PNum 6, rate = PNum 11\<rparr>]),
          (''c'', [\<lparr>timestamp = PNum 4, rssi = PNum (- 50), csi_data = PList [], channel = PNum 6, rate = PNum 11\<rparr>]),
          (''d'', [\<lparr>timestamp = PNum 5, rssi = PNum (- 50), csi_data = PList [], channel = PNum 6, rate = PNum 11\<rparr>])] []
       = Inr [(''a'', 10), (''b'', 10), (''c'', 10), (''d'', 10)]
   \<and> 3 \<le> length [(''a'', 10 :: real), (''b'', 10), (''c'', 10), (''d'', 10)]
   \<and> select_nodes [(''a'', 10), (''b'', 10), (''c'', 10), (''d'', 10)] = [''a'', ''b'', ''c'']
   \<and> trilaterate
        \<lparr>node_positions = [(''d'', [0, 10]), (''c'', [5, 10]), (''b'', [10, 0]), (''a'', [0, 0])], nodes = [],
        csi_buffer = [(''a'', [\<lparr>timestamp = PNum 1, rssi = PNum (- 50), csi_data = PList [], channel = PNum 6, rate = PNum 11\<rparr>]),
          (''x'', [\<lparr>timestamp = PNum 2, rssi = PNum (- 50), csi_data = PList [], channel = PNum 6, rate = PNum 11\<rparr>]),
          (''b'', [\<lparr>timestamp = PNum 3, rssi = PNum (- 50), csi_data = PList [], channel = PNum 6, rate = PNum 11\<rparr>]),
          (''c'', [\<lparr>timestamp = PNum 4, rssi = PNum (- 50), csi_data = PList [], channel = PNum 6, rate = PNum 11\<rparr>]),
          (''d'', [\<lparr>timestamp = PNum 5, rssi = PNum (- 50), csi_data = PList [], channel = PNum 6, rate = PNum 11\<rparr>])],
        published = [], logged = []\<rparr>
        [(''a'', 10), (''b'', 10), (''c'', 10), (''d'', 10)]
      = (\<lparr>node_positions = [(''d'', [0, 10]), (''c'', [5, 10]), (''b'', [10, 0]), (''a'', [0, 0])], nodes = [],
        csi_buffer = [(''a'', [\<lparr>timestamp = PNum 1, rssi = PNum (- 50), csi_data = PList [], channel = PNum 6, rate = PNum 11\<rparr>]),
          (''x'', [\<lparr>timestamp = PNum 2, rssi = PNum (- 50), csi_data = PList [], channel = PNum 6, rate = PNum 11\<rparr>]),
          (''b'', [\<lparr>timestamp = PNum 3, rssi = PNum (- 50), csi_data = PList [], channel = PNum 6, rate = PNum 11\<rparr>]),
          (''c'', [\<lparr>timestamp = PNum 4, rssi = PNum (- 50), csi_data = PList [], channel = PNum 6, rate = PNum 11\<rparr>]),
          (''d'', [\<lparr>timestamp = PNum 5, rssi = PNum (- 50), csi_data = PList [], channel = PNum 6, rate = PNum 11\<rparr>])],
        published = [], logged = []\<rparr>,
         Some (Finite 5, Finite (375 / 100)))
   \<and> trilateration_math [0, 0] [10, 0] [5, 10] 10 10 10 = Inr (Finite 5, Finite (375 / 100))"
proof -
  let ?s = "\<lparr>node_positions = [(''d'', [0, 10]), (''c'', [5, 10]), (''b'', [10, 0]), (''a'', [0, 0])], nodes = [],
        csi_buffer = [(''a'', [\<lparr>timestamp = PNum 1, rssi = PNum (- 50), csi_data = PList [], channel = PNum 6, rate = PNum 11\<rparr>]),
          (''x'', [\<lparr>timestamp = PNum 2, rssi = PNum (- 50), csi_data = PList [], channel = PNum 6, rate = PNum 11\<rparr>]),
          (''b'', [\<lparr>timestamp = PNum 3, rssi = PNum (- 50), csi_data = PList [], channel = PNum 6, rate = PNum 11\<rparr>]),
          (''c'', [\<lparr>timestamp = PNum 4, rssi = PNum (- 50), csi_data = PList [], channel = PNum 6, rate = PNum 11\<rparr>]),
          (''d'', [\<lparr>timestamp = PNum 5, rssi = PNum (- 50), csi_data = PList [], channel = PNum 6, rate = PNum 11\<rparr>])],
        published = [], logged = []\<rparr>"
  let ?d = "[(''a'', 10 :: real), (''b'', 10), (''c'', 10), (''d'', 10)]"
  have h1: "distinct (map fst (csi_buffer ?s))" by simp
  have h2: "compute_distances (node_positions ?s) (csi_buffer ?s) [] = Inr ?d"
    by (simp add: np_mean_def)
  have h3: "3 \<le> length ?d" by simp
  from solve_uses_first_three_qualifying [OF h1 h2 h3]
  obtain n1 n2 n3 p1 p2 p3 r1 r2 r3 where
    sel: "select_nodes ?d = [n1, n2, n3]"
    and p: "map_of (node_positions ?s) n1 = Some p1" "map_of (node_positions ?s) n2 = Some p2"
      "map_of (node_positions ?s) n3 = Some p3"
    and tk: "take 3 ?d = [(n1, r1), (n2, r2), (n3, r3)]"
    and tr: "trilaterate ?s ?d =
               (case trilateration_math p1 p2 p3 r1 r2 r3 of
                  Inl e \<Rightarrow> (?s\<lparr>logged := logged ?s @ [Trilateration_error e]\<rparr>, None)
                | Inr position \<Rightarrow> (?s, Some position))"
    by blast
  have n: "n1 = ''a''" "n2 = ''b''" "n3 = ''c''" "r1 = 10" "r2 = 10" "r3 = 10"
    using tk by (simp_all add: numeral_3_eq_3)
  have c1: "select_nodes ?d = [''a'', ''b'', ''c'']" using sel n by simp
  have ps: "p1 = [0, 0]" "p2 = [10, 0]" "p3 = [5, 10]"
    using p unfolding n by simp_all
  have math: "trilateration_math [0, 0] [10, 0] [5, 10] 10 10 10 = Inr (Finite 5, Finite (375 / 100))"
    by (simp add: trilateration_math_def bind_exn_def coord_def np_div_def Let_def)
  have c2: "trilaterate ?s ?d = (?s, Some (Finite 5, Finite (375 / 100)))"
    using tr unfolding ps n math by simp
  show ?thesis
    using h1 [unfolded processor.simps] h2 [unfolded processor.simps] h3 c1 c2 math
    by blast
qed

subsection \<open>The quorum\<close>

text \<open>The definitions that a run on concrete messages unfolds.\<close>

lemmas run_defs = init_def on_message_def on_message_body_def process_csi_data_def
  update_node_stats_def make_entry_def bind_exn_def buffer_getitem_def calculate_position_def
  np_mean_def trilaterate_def trilaterate_body_def trilateration_math_def select_nodes_def
  list_getitem_def dict_getitem_def coord_def np_div_def publish_position_def Let_def
  deque_append_def maxlen_def qualifying_nodes_def rint_def sample_loads_def

lemma trilaterate_frame:
  "trilaterate s d = (s', r) \<Longrightarrow>
     csi_buffer s' = csi_buffer s \<and> node_positions s' = node_positions s
     \<and> nodes s' = nodes s \<and> published s' = published s"
  by (auto simp: trilaterate_def split: sum.splits)

lemma publish_position_frame:
  "csi_buffer (publish_position now s p) = csi_buffer s"
  "node_positions (publish_position now s p) = node_positions s"
  "nodes (publish_position now s p) = nodes s"
  by (simp_all add: publish_position_def Let_def)

lemma calculate_position_frame:
  "csi_buffer (calculate_position now s) = csi_buffer s"
  "node_positions (calculate_position now s) = node_positions s"
  "nodes (calculate_position now s) = nodes s"
  by (auto simp: calculate_position_def publish_position_frame
      split: sum.splits prod.splits option.splits dest: trilaterate_frame)

lemma calculate_position_published:
  assumes "distinct (map fst (csi_buffer s))"
  shows "published (calculate_position now s) = published s \<or> 3 \<le> length (qualifying_nodes s)"
proof (cases "compute_distances (node_positions s) (csi_buffer s) []")
  case (Inl e)
  then show ?thesis by (simp add: calculate_position_def)
next
  case (Inr distances)
  have "length distances = length (qualifying_nodes s)"
    using distances_are_qualifying [OF assms Inr] by (metis length_map)
  then show ?thesis
    using Inr by (auto simp: calculate_position_def split: prod.splits option.splits
        dest: trilaterate_frame)
qed

lemma deque_append_nonempty: "deque_append x b \<noteq> []"
  by (cases b; cases "tl b") (auto simp: deque_append_def Let_def maxlen_def)

lemma keys_buffer_append: "map fst (buffer_append k x buf) = map fst buf"
  by (induction buf) auto

lemma qualifying_buffer_append:
  "length (filter (\<lambda>(k, b). P k \<and> b \<noteq> []) buf)
     \<le> length (filter (\<lambda>(k, b). P k \<and> b \<noteq> []) (buffer_append node_mac x buf))"
proof (induction buf)
  case Nil
  then show ?case by simp
next
  case (Cons item buf)
  obtain k b where item: "item = (k, b)" by (cases item)
  show ?case
  proof (cases "k = node_mac")
    case True
    then show ?thesis unfolding item by (simp add: deque_append_nonempty)
  next
    case False
    then show ?thesis using Cons.IH unfolding item by simp
  qed
qed

lemma distinct_buffer_getitem:
  "distinct (map fst buf) \<Longrightarrow> distinct (map fst (buffer_getitem k buf))"
  by (auto simp: buffer_getitem_def map_of_eq_None_iff split: option.splits)

lemma qualifying_buffer_getitem:
  "filter (\<lambda>(k, b). P k \<and> b \<noteq> []) (buffer_getitem node_mac buf)
     = filter (\<lambda>(k, b). P k \<and> b \<noteq> []) buf"
  by (auto simp: buffer_getitem_def split: option.splits)

lemma process_csi_data_step:
  assumes "distinct (map fst (csi_buffer s))" and "process_csi_data now s k data = (s', e)"
  shows "distinct (map fst (csi_buffer s')) \<and> node_positions s' = node_positions s
     \<and> length (qualifying_nodes s) \<le> length (qualifying_nodes s')
     \<and> (published s' = published s \<or> 3 \<le> length (qualifying_nodes s'))"
proof -
  let ?s1 = "s\<lparr>csi_buffer := buffer_getitem k (csi_buffer s)\<rparr>"
  have d1: "distinct (map fst (csi_buffer ?s1))"
    using assms(1) by (simp add: distinct_buffer_getitem)
  have q1: "qualifying_nodes ?s1 = qualifying_nodes s"
    by (simp add: qualifying_nodes_def qualifying_buffer_getitem)
  show ?thesis
  proof (cases "make_entry data")
    case (Inl x)
    then have "s' = ?s1" using assms(2) by (simp add: process_csi_data_def Let_def)
    then show ?thesis using d1 q1 by simp
  next
    case (Inr entry)
    let ?s2 = "?s1\<lparr>csi_buffer := buffer_append k entry (csi_buffer ?s1)\<rparr>"
    have d2: "distinct (map fst (csi_buffer ?s2))"
      using d1 by (simp add: keys_buffer_append)
    have "length (qualifying_nodes ?s1) \<le> length (qualifying_nodes ?s2)"
      by (simp add: qualifying_nodes_def qualifying_buffer_append)
    then have q2: "length (qualifying_nodes s) \<le> length (qualifying_nodes ?s2)"
      using q1 by simp
    have qc: "qualifying_nodes (calculate_position now ?s2) = qualifying_nodes ?s2"
      by (simp add: qualifying_nodes_def calculate_position_frame)
    have s': "s' = ?s2 \<or> s' = calculate_position now ?s2"
      using assms(2) Inr by (auto simp: process_csi_data_def Let_def split: if_splits)
    then show ?thesis
    proof
      assume "s' = ?s2"
      then show ?thesis using d2 q2 by simp
    next
      assume c: "s' = calculate_position now ?s2"
      have "published s' = published s \<or> 3 \<le> length (qualifying_nodes s')"
        using calculate_position_published [OF d2, of now] unfolding c qc by simp
      then show ?thesis
        using d2 q2 unfolding c qc by (simp add: calculate_position_frame)
    qed
  qed
qed

lemma update_node_stats_frame:
  "update_node_stats now s k stats = (s', e) \<Longrightarrow>
     csi_buffer s' = csi_buffer s \<and> node_positions s' = node_positions s
     \<and> published s' = published s"
  by (auto simp: update_node_stats_def split: sum.splits)

lemma on_message_step:
  assumes "distinct (map fst (csi_buffer s))"
  shows "distinct (map fst (csi_buffer (on_message loads now s msg)))
     \<and> node_positions (on_message loads now s msg) = node_positions s
     \<and> length (qualifying_nodes s) \<le> length (qualifying_nodes (on_message loads now s msg))
     \<and> (published (on_message loads now s msg) = published s
        \<or> 3 \<le> length (qualifying_nodes (on_message loads now s msg)))"
proof -
  obtain s' e where b: "on_message_body loads now s msg = (s', e)"
    by (cases "on_message_body loads now s msg")
  have q: "qualifying_nodes (on_message loads now s msg) = qualifying_nodes s'"
    using b by (auto simp: on_message_def qualifying_nodes_def split: option.splits)
  have f: "csi_buffer (on_message loads now s msg) = csi_buffer s'"
    "node_positions (on_message loads now s msg) = node_positions s'"
    "published (on_message loads now s msg) = published s'"
    using b by (auto simp: on_message_def split: option.splits)
  consider (same) "s' = s"
    | (data) k data where "process_csi_data now s k data = (s', e)"
    | (stats) k stats where "update_node_stats now s k stats = (s', e)"
    using b by (auto simp: on_message_body_def Let_def split: if_splits sum.splits)
  then have "distinct (map fst (csi_buffer s')) \<and> node_positions s' = node_positions s
     \<and> length (qualifying_nodes s) \<le> length (qualifying_nodes s')
     \<and> (published s' = published s \<or> 3 \<le> length (qualifying_nodes s'))"
  proof cases
    case same
    then show ?thesis using assms by simp
  next
    case data
    then show ?thesis using process_csi_data_step [OF assms] by blast
  next
    case stats
    then show ?thesis
      using update_node_stats_frame [OF stats] assms by (simp add: qualifying_nodes_def)
  qed
  then show ?thesis unfolding q f .
qed

lemma ingest_invariant:
  assumes "distinct (map fst (csi_buffer s))"
    and "published s = [] \<or> 3 \<le> length (qualifying_nodes s)"
  shows "distinct (map fst (csi_buffer (ingest loads s msgs)))
     \<and> length (qualifying_nodes s) \<le> length (qualifying_nodes (ingest loads s msgs))
     \<and> (published (ingest loads s msgs) = [] \<or> 3 \<le> length (qualifying_nodes (ingest loads s msgs)))"
  using assms
proof (induction msgs arbitrary: s)
  case Nil
  then show ?case by simp
next
  case (Cons m msgs)
  obtain now msg where m: "m = (now, msg)" by (cases m)
  let ?s = "on_message loads now s msg"
  note st = on_message_step [OF Cons.prems(1), of loads now msg]
  have d: "distinct (map fst (csi_buffer ?s))" using st by blast
  have p: "published ?s = [] \<or> 3 \<le> length (qualifying_nodes ?s)"
    using st Cons.prems(2) by auto
  have "length (qualifying_nodes s) \<le> length (qualifying_nodes ?s)" using st by blast
  then show ?case using Cons.IH [OF d p] m by auto
qed

lemma ingest_append: "ingest loads s (xs @ ys) = ingest loads (ingest loads s xs) ys"
  by (induction xs arbitrary: s) auto

text \<open>
  Two facts about every state reached from the initial one: \<open>csi_buffer\<close> has no key
  twice, and no buffer is longer than \<open>maxlen\<close>.
\<close>

lemma reachable_keys_distinct:
  "distinct (map fst (csi_buffer (ingest loads (init positions) msgs)))"
proof -
  have "distinct (map fst (csi_buffer (init positions)))"
    "published (init positions) = [] \<or> 3 \<le> length (qualifying_nodes (init positions))"
    by (simp_all add: init_def)
  from ingest_invariant [OF this] show ?thesis by blast
qed

lemma bounded_buffer_append:
  "list_all (\<lambda>(k, b). length b \<le> maxlen) buf \<Longrightarrow>
   list_all (\<lambda>(k, b). length b \<le> maxlen) (buffer_append node_mac x buf)"
  by (induction buf) (auto simp: length_deque_append)

lemma bounded_on_message:
  assumes "list_all (\<lambda>(k, b). length b \<le> maxlen) (csi_buffer s)"
  shows "list_all (\<lambda>(k, b). length b \<le> maxlen) (csi_buffer (on_message loads now s msg))"
proof -
  have g: "list_all (\<lambda>(k, b). length b \<le> maxlen) (buffer_getitem k (csi_buffer s))" for k
    using assms by (simp add: buffer_getitem_def split: option.splits)
  have p: "list_all (\<lambda>(k, b). length b \<le> maxlen) (csi_buffer (fst (process_csi_data now s k data)))"
    for k data
    using g [of k] bounded_buffer_append [OF g, of k]
    by (auto simp: process_csi_data_def Let_def calculate_position_frame split: sum.splits)
  have u: "csi_buffer (fst (update_node_stats now s k stats)) = csi_buffer s" for k stats
    by (auto simp: update_node_stats_def split: sum.splits)
  have "list_all (\<lambda>(k, b). length b \<le> maxlen) (csi_buffer (fst (on_message_body loads now s msg)))"
    using assms p u by (auto simp: on_message_body_def Let_def split: sum.splits)
  then show ?thesis
    by (cases "on_message_body loads now s msg") (auto simp: on_message_def split: option.splits)
qed

lemma reachable_buffers_bounded:
  "list_all (\<lambda>(k, b). length b \<le> maxlen) (csi_buffer (ingest loads (init positions) msgs))"
proof -
  have "list_all (\<lambda>(k, b). length b \<le> maxlen) (csi_buffer s) \<Longrightarrow>
        list_all (\<lambda>(k, b). length b \<le> maxlen) (csi_buffer (ingest loads s msgs))" for s
  proof (induction msgs arbitrary: s)
    case Nil
    then show ?case by simp
  next
    case (Cons m msgs)
    obtain now msg where m: "m = (now, msg)" by (cases m)
    show ?case unfolding m using Cons.IH [OF bounded_on_message [OF Cons.prems]] by simp
  qed
  then show ?thesis by (simp add: init_def)
qed

text \<open>
  Claim C3. Take any sequence of messages handled from the initial state. If at its end
  fewer than three distinct nodes qualify (a position in the configuration and a non-empty
  buffer), then nothing has been published at its end, nor after any of its prefixes.
\<close>

theorem no_result_below_quorum:
  assumes "card (set (qualifying_nodes (ingest loads (init positions) msgs))) < 3"
  shows "published (ingest loads (init positions) (take n msgs)) = []"
proof -
  let ?s = "ingest loads (init positions) (take n msgs)"
  let ?t = "ingest loads (init positions) msgs"
  have "distinct (qualifying_nodes ?t)"
    using reachable_keys_distinct by (rule distinct_qualifying_nodes)
  then have less: "length (qualifying_nodes ?t) < 3"
    using assms by (simp add: distinct_card)
  have i: "distinct (map fst (csi_buffer (init positions)))"
    "published (init positions) = [] \<or> 3 \<le> length (qualifying_nodes (init positions))"
    by (simp_all add: init_def)
  have a: "distinct (map fst (csi_buffer ?s))"
    and b: "published ?s = [] \<or> 3 \<le> length (qualifying_nodes ?s)"
    using ingest_invariant [OF i, of loads "take n msgs"] by blast+
  have "?t = ingest loads ?s (drop n msgs)"
    by (simp add: ingest_append [symmetric])
  then have "length (qualifying_nodes ?s) \<le> length (qualifying_nodes ?t)"
    using ingest_invariant [OF a b, of loads "drop n msgs"] by simp
  then show ?thesis using b less by linarith
qed

theorem no_result_below_quorum_witness:
  "card (set (qualifying_nodes
      (ingest sample_loads (init [(''a'', [0, 0]), (''b'', [10, 0]), (''c'', [5, 10])])
         [(''t1'', \<lparr>topic = ''whofi/csi/a/data'', payload = ''m''\<rparr>),
          (''t2'', \<lparr>topic = ''whofi/csi/b/data'', payload = ''m''\<rparr>),
          (''t3'', \<lparr>topic = ''whofi/csi/x/data'', payload = ''m''\<rparr>)]))) < 3
   \<and> published
      (ingest sample_loads (init [(''a'', [0, 0]), (''b'', [10, 0]), (''c'', [5, 10])])
         (take 3 [(''t1'', \<lparr>topic = ''whofi/csi/a/data'', payload = ''m''\<rparr>),
                  (''t2'', \<lparr>topic = ''whofi/csi/b/data'', payload = ''m''\<rparr>),
                  (''t3'', \<lparr>topic = ''whofi/csi/x/data'', payload = ''m''\<rparr>)])) = []"
proof -
  have h: "card (set (qualifying_nodes
      (ingest sample_loads (init [(''a'', [0, 0]), (''b'', [10, 0]), (''c'', [5, 10])])
         [(''t1'', \<lparr>topic = ''whofi/csi/a/data'', payload = ''m''\<rparr>),
          (''t2'', \<lparr>topic = ''whofi/csi/b/data'', payload = ''m''\<rparr>),
          (''t3'', \<lparr>topic = ''whofi/csi/x/data'', payload = ''m''\<rparr>)]))) < 3"
    by (simp add: run_defs)
  show ?thesis
    using h no_result_below_quorum [OF h, of 3] by blast
qed

subsection \<open>Stats messages\<close>

lemma calculate_position_same:
  "same_pipeline s t \<Longrightarrow> same_pipeline (calculate_position now s) (calculate_position now t)"
  by (auto simp: same_pipeline_def calculate_position_def trilaterate_def publish_position_def
      Let_def split: sum.splits)

lemma process_csi_data_same:
  "same_pipeline s t \<Longrightarrow>
   same_pipeline (fst (process_csi_data now s k d)) (fst (process_csi_data now t k d))"
proof -
  assume a: "same_pipeline s t"
  show ?thesis
  proof (cases "make_entry d")
    case (Inl e)
    then show ?thesis using a by (simp add: process_csi_data_def Let_def same_pipeline_def)
  next
    case (Inr entry)
    let ?s2 = "s\<lparr>csi_buffer := buffer_append k entry (buffer_getitem k (csi_buffer s))\<rparr>"
    let ?t2 = "t\<lparr>csi_buffer := buffer_append k entry (buffer_getitem k (csi_buffer t))\<rparr>"
    have st: "same_pipeline ?s2 ?t2" using a by (simp add: same_pipeline_def)
    then have "same_pipeline (calculate_position now ?s2) (calculate_position now ?t2)"
      by (rule calculate_position_same)
    then show ?thesis
      using Inr st a by (simp add: process_csi_data_def Let_def) (simp add: same_pipeline_def)
  qed
qed

lemma update_node_stats_same:
  "same_pipeline s (fst (update_node_stats now s k d))"
  by (auto simp: same_pipeline_def update_node_stats_def split: sum.splits)

lemma on_message_fst: "same_pipeline (on_message loads now s msg) (fst (on_message_body loads now s msg))"
  by (cases "on_message_body loads now s msg")
     (auto simp: on_message_def same_pipeline_def split: option.splits)

lemma update_node_stats_same2:
  "same_pipeline s t \<Longrightarrow>
   same_pipeline (fst (update_node_stats now s k d)) (fst (update_node_stats now t k d))"
  by (auto simp: same_pipeline_def update_node_stats_def split: sum.splits)

lemma on_message_body_same:
  assumes "same_pipeline s t"
  shows "same_pipeline (fst (on_message_body loads now s msg)) (fst (on_message_body loads now t msg))"
  using assms process_csi_data_same [OF assms] update_node_stats_same2 [OF assms]
  by (auto simp: on_message_body_def Let_def split: sum.splits)

lemma on_message_same:
  assumes "same_pipeline s t"
  shows "same_pipeline (on_message loads now s msg) (on_message loads now t msg)"
  using on_message_body_same [OF assms, of loads now msg]
    on_message_fst [of loads now s msg] on_message_fst [of loads now t msg]
  by (simp add: same_pipeline_def)

lemma ingest_same:
  "same_pipeline s t \<Longrightarrow> same_pipeline (ingest loads s msgs) (ingest loads t msgs)"
proof (induction msgs arbitrary: s t)
  case Nil
  then show ?case by simp
next
  case (Cons m msgs)
  obtain now msg where m: "m = (now, msg)" by (cases m)
  show ?case unfolding m using Cons.IH [OF on_message_same [OF Cons.prems]] by simp
qed

lemma stats_message_frame:
  assumes "4 \<le> length (split_str (CHR ''/'') (topic msg))"
    and "split_str (CHR ''/'') (topic msg) ! 3 = ''stats''"
  shows "same_pipeline s (on_message loads now s msg)"
proof -
  have "same_pipeline s (fst (on_message_body loads now s msg))"
    using assms update_node_stats_same [of s now]
    by (auto simp: on_message_body_def Let_def same_pipeline_def split: sum.splits)
  then show ?thesis
    using on_message_fst [of loads now s msg] by (simp add: same_pipeline_def)
qed

lemma stats_message_nodes:
  assumes "4 \<le> length (split_str (CHR ''/'') (topic msg))"
    and "split_str (CHR ''/'') (topic msg) ! 3 = ''stats''"
    and "k \<noteq> split_str (CHR ''/'') (topic msg) ! 2"
  shows "map_of (nodes (on_message loads now s msg)) k = map_of (nodes s) k"
  using assms
  by (auto simp: on_message_def on_message_body_def update_node_stats_def Let_def
      map_of_dict_setitem split: sum.splits)

text \<open>
  Claim C8. Handling a message whose topic has \<open>stats\<close> as fourth segment leaves
  \<open>csi_buffer\<close> and the published results as they were, whatever its payload; of the
  stats records only the one of the node named in the topic can change. Whatever is
  handled afterwards, the buffers and the published results are the same as if the stats
  message had not been received.
\<close>

theorem stats_never_touch_buffers:
  assumes "4 \<le> length (split_str (CHR ''/'') (topic msg))"
    and "split_str (CHR ''/'') (topic msg) ! 3 = ''stats''"
  shows "csi_buffer (on_message loads now s msg) = csi_buffer s
         \<and> published (on_message loads now s msg) = published s
         \<and> csi_buffer (ingest loads (on_message loads now s msg) msgs) = csi_buffer (ingest loads s msgs)
         \<and> published (ingest loads (on_message loads now s msg) msgs) = published (ingest loads s msgs)
         \<and> (\<forall>k. k \<noteq> split_str (CHR ''/'') (topic msg) ! 2 \<longrightarrow>
                map_of (nodes (on_message loads now s msg)) k = map_of (nodes s) k)"
proof -
  have f: "same_pipeline s (on_message loads now s msg)"
    using assms by (rule stats_message_frame)
  have "same_pipeline (ingest loads s msgs) (ingest loads (on_message loads now s msg) msgs)"
    using f by (rule ingest_same)
  then show ?thesis
    using f stats_message_nodes [OF assms] by (simp add: same_pipeline_def)
qed

theorem stats_never_touch_buffers_witness:
  "4 \<le> length (split_str (CHR ''/'') (topic \<lparr>topic = ''whofi/csi/a/stats'', payload = ''s''\<rparr>))
   \<and> split_str (CHR ''/'') (topic \<lparr>topic = ''whofi/csi/a/stats'', payload = ''s''\<rparr>) ! 3 = ''stats''
   \<and> ''b'' \<noteq> split_str (CHR ''/'') (topic \<lparr>topic = ''whofi/csi/a/stats'', payload = ''s''\<rparr>) ! 2
   \<and> csi_buffer (on_message (\<lambda>p. Inr (PDict [(''packets'', PNum 7)])) ''t2''
         \<lparr>node_positions = [(''a'', [0, 0])],
           nodes = [(''b'', \<lparr>packets = PNum 1, enabled = PBool True, uptime = PNum 2,
                              last_seen = ''t1''\<rparr>)],
           csi_buffer = [(''a'', [])], published = [], logged = []\<rparr>
         \<lparr>topic = ''whofi/csi/a/stats'', payload = ''s''\<rparr>)
       = [(''a'', [])]
   \<and> map_of (nodes (on_message (\<lambda>p. Inr (PDict [(''packets'', PNum 7)])) ''t2''
         \<lparr>node_positions = [(''a'', [0, 0])],
           nodes = [(''b'', \<lparr>packets = PNum 1, enabled = PBool True, uptime = PNum 2,
                              last_seen = ''t1''\<rparr>)],
           csi_buffer = [(''a'', [])], published = [], logged = []\<rparr>
         \<lparr>topic = ''whofi/csi/a/stats'', payload = ''s''\<rparr>)) ''b''
       = Some \<lparr>packets = PNum 1, enabled = PBool True, uptime = PNum 2, last_seen = ''t1''\<rparr>
   \<and> map_of (nodes (on_message (\<lambda>p. Inr (PDict [(''packets'', PNum 7)])) ''t2''
         \<lparr>node_positions = [(''a'', [0, 0])],
           nodes = [(''b'', \<lparr>packets = PNum 1, enabled = PBool True, uptime = PNum 2,
                              last_seen = ''t1''\<rparr>)],
           csi_buffer = [(''a'', [])], published = [], logged = []\<rparr>
         \<lparr>topic = ''whofi/csi/a/stats'', payload = ''s''\<rparr>)) ''a''
       = Some \<lparr>packets = PNum 7, enabled = PBool False, uptime = PNum 0, last_seen = ''t2''\<rparr>"
proof -
  let ?msg = "\<lparr>topic = ''whofi/csi/a/stats'', payload = ''s''\<rparr>"
  let ?loads = "\<lambda>p :: string. (Inr (PDict [(''packets'', PNum 7)]) :: exn + pyval)"
  let ?s = "\<lparr>node_positions = [(''a'', [0, 0])],
           nodes = [(''b'', \<lparr>packets = PNum 1, enabled = PBool True, uptime = PNum 2,
                              last_seen = ''t1''\<rparr>)],
           csi_buffer = [(''a'', [])], published = [], logged = []\<rparr>"
  have h1: "4 \<le> length (split_str (CHR ''/'') (topic ?msg))" by simp
  have h2: "split_str (CHR ''/'') (topic ?msg) ! 3 = ''stats''" by simp
  have h3: "''b'' \<noteq> split_str (CHR ''/'') (topic ?msg) ! 2" by simp
  note t = stats_never_touch_buffers [OF h1 h2, of ?loads "''t2''" ?s "[]"]
  have c: "csi_buffer (on_message ?loads ''t2'' ?s ?msg) = [(''a'', [])]"
    using t by simp
  have b: "map_of (nodes (on_message ?loads ''t2'' ?s ?msg)) ''b''
       = Some \<lparr>packets = PNum 1, enabled = PBool True, uptime = PNum 2, last_seen = ''t1''\<rparr>"
    using t h3 by simp
  have a: "map_of (nodes (on_message ?loads ''t2'' ?s ?msg)) ''a''
       = Some \<lparr>packets = PNum 7, enabled = PBool False, uptime = PNum 0, last_seen = ''t2''\<rparr>"
    by (simp add: run_defs)
  from h1 h2 h3 c b a show ?thesis by (intro conjI)
qed

subsection \<open>The solve\<close>

text \<open>
  Claim C6. At the anchors (0,0), (10,0), (5,10) with the three distances 7.07 the solve
  returns the point (5, 3.75): the two linear equations do not depend on a common distance,
  and their solution is the point at equal distance from the three anchors. Every step is
  exact here, in the reals as in float64.
\<close>

theorem symmetric_anchors_solution:
  "snd (trilaterate (init [(''a'', [0, 0]), (''b'', [10, 0]), (''c'', [5, 10])])
          [(''a'', 707 / 100), (''b'', 707 / 100), (''c'', 707 / 100)])
     = Some (Finite 5, Finite (375 / 100))"
  by (simp add: run_defs)

text \<open>
  The point is 0.21 away from (5, 3.54) in its second coordinate, so it is not within a
  tolerance of 0.2 of it.
\<close>

theorem symmetric_anchors_counterexample:
  "snd (trilaterate (init [(''a'', [0, 0]), (''b'', [10, 0]), (''c'', [5, 10])])
          [(''a'', 707 / 100), (''b'', 707 / 100), (''c'', 707 / 100)])
     = Some (Finite 5, Finite (375 / 100))
   \<and> \<not> near (2 / 10) (Finite 5, Finite (375 / 100)) (5, 354 / 100)"
  by (simp add: run_defs near_def)

text \<open>
  Collinear anchors make both denominators zero, and the NumPy divisions then give
  non-finite values: no exception is raised, so the \<open>except\<close> branch that returns \<open>None\<close>
  is not taken.
\<close>

lemma collinear_gives_nonfinite:
  assumes "(x2 - x1) * (y3 - y2) = (y2 - y1) * (x3 - x2)"
  shows "trilateration_math [x1, y1] [x2, y2] [x3, y3] r1 r2 r3 = Inr (NonFinite, NonFinite)"
proof -
  have "(2 * y3 - 2 * y2) * (2 * x2 - 2 * x1) - (2 * y2 - 2 * y1) * (2 * x3 - 2 * x2) = 0"
    using assms by (simp add: algebra_simps)
  moreover have "(2 * y2 - 2 * y1) * (2 * x3 - 2 * x2) - (2 * x2 - 2 * x1) * (2 * y3 - 2 * y2) = 0"
    using assms by (simp add: algebra_simps)
  ultimately show ?thesis
    by (simp add: trilateration_math_def bind_exn_def coord_def Let_def np_div_def)
qed

text \<open>
  Claim C1 (not met by the code). At the collinear anchors (0,0), (5,0), (10,0)
  \<open>trilaterate\<close> returns a pair of non-finite coordinates, not \<open>None\<close>; after one
  measurement from each of the three nodes, \<open>calculate_position\<close> publishes that pair.
\<close>

theorem collinear_anchors_are_published:
  "snd (trilaterate (init [(''a'', [0, 0]), (''b'', [5, 0]), (''c'', [10, 0])])
          [(''a'', 10), (''b'', 10), (''c'', 10)])
     = Some (NonFinite, NonFinite)
   \<and> published
      (ingest sample_loads
         (init [(''a'', [0, 0]), (''b'', [5, 0]), (''c'', [10, 0])])
         [(''t1'', \<lparr>topic = ''whofi/csi/a/data'', payload = ''m''\<rparr>),
          (''t2'', \<lparr>topic = ''whofi/csi/b/data'', payload = ''m''\<rparr>),
          (''t3'', \<lparr>topic = ''whofi/csi/c/data'', payload = ''m''\<rparr>)])
     = [(''homeassistant/sensor/whofi_position/state'',
           [(''x'', OFloat NonFinite), (''y'', OFloat NonFinite),
            (''timestamp'', OStr ''t3''),
            (''confidence'', OFloat (Finite (8 / 10))),
            (''source'', OStr ''csi_trilateration'')]),
          (''homeassistant/device_tracker/whofi_tracker/attributes'',
           [(''latitude'', OFloat NonFinite),
            (''longitude'', OFloat NonFinite),
            (''gps_accuracy'', OFloat (Finite 2)),
            (''source_type'', OStr ''router'')])]"
  by (simp add: run_defs)

subsection \<open>The published result\<close>

lemma calculate_position_fields:
  "list_all result_fields (published s) \<Longrightarrow>
   list_all result_fields (published (calculate_position now s))"
  by (auto simp: calculate_position_def trilaterate_def publish_position_def Let_def
      result_fields_def split: sum.splits)

lemma on_message_fields:
  assumes "list_all result_fields (published s)"
  shows "list_all result_fields (published (on_message loads now s msg))"
proof -
  have p: "list_all result_fields (published (fst (process_csi_data now s k data)))" for k data
    using assms calculate_position_fields [of "s\<lparr>csi_buffer := b\<rparr>" now for b]
    by (auto simp: process_csi_data_def Let_def split: sum.splits)
  have u: "published (fst (update_node_stats now s k stats)) = published s" for k stats
    by (auto simp: update_node_stats_def split: sum.splits)
  have "list_all result_fields (published (fst (on_message_body loads now s msg)))"
    using assms p u by (auto simp: on_message_body_def Let_def split: sum.splits)
  then show ?thesis
    by (cases "on_message_body loads now s msg") (auto simp: on_message_def split: option.splits)
qed

lemma ingest_fields:
  "list_all result_fields (published s) \<Longrightarrow>
   list_all result_fields (published (ingest loads s msgs))"
proof (induction msgs arbitrary: s)
  case Nil
  then show ?case by simp
next
  case (Cons m msgs)
  obtain now msg where m: "m = (now, msg)" by (cases m)
  show ?case unfolding m using Cons.IH [OF on_message_fields [OF Cons.prems]] by simp
qed

text \<open>
  Claim C2, as the code has it. Whatever is handled from the initial state, every
  published message is either the position record with exactly the fields \<open>x\<close>, \<open>y\<close>,
  \<open>timestamp\<close>, \<open>confidence\<close>, \<open>source\<close>, or the tracker record with \<open>latitude\<close>,
  \<open>longitude\<close>, \<open>gps_accuracy\<close>, \<open>source_type\<close>; none has a field
  \<open>contributing_node_ids\<close>.
\<close>

theorem published_result_fields:
  "\<forall>m \<in> set (published (ingest loads (init positions) msgs)).
     result_fields m \<and> map_of (snd m) ''contributing_node_ids'' = None"
proof -
  have "list_all result_fields (published (ingest loads (init positions) msgs))"
    by (rule ingest_fields) (simp add: init_def)
  moreover have "map_of (snd m) ''contributing_node_ids'' = None" if "result_fields m" for m
    using that by (auto simp: result_fields_def map_of_eq_None_iff)
  ultimately show ?thesis by (auto simp: list_all_iff)
qed

theorem published_result_fields_witness:
  "(''homeassistant/sensor/whofi_position/state'',
      [(''x'', OFloat (Finite 5)), (''y'', OFloat (Finite (375 / 100))),
       (''timestamp'', OStr ''t3''), (''confidence'', OFloat (Finite (8 / 10))),
       (''source'', OStr ''csi_trilateration'')])
     \<in> set (published
          (ingest sample_loads
             (init [(''a'', [0, 0]), (''b'', [10, 0]), (''c'', [5, 10])])
             [(''t1'', \<lparr>topic = ''whofi/csi/a/data'', payload = ''m''\<rparr>),
              (''t2'', \<lparr>topic = ''whofi/csi/b/data'', payload = ''m''\<rparr>),
              (''t3'', \<lparr>topic = ''whofi/csi/c/data'', payload = ''m''\<rparr>)]))
   \<and> result_fields (''homeassistant/sensor/whofi_position/state'',
      [(''x'', OFloat (Finite 5)), (''y'', OFloat (Finite (375 / 100))),
       (''timestamp'', OStr ''t3''), (''confidence'', OFloat (Finite (8 / 10))),
       (''source'', OStr ''csi_trilateration'')])"
proof -
  let ?m = "(''homeassistant/sensor/whofi_position/state'',
      [(''x'', OFloat (Finite 5)), (''y'', OFloat (Finite (375 / 100))),
       (''timestamp'', OStr ''t3''), (''confidence'', OFloat (Finite (8 / 10))),
       (''source'', OStr ''csi_trilateration'')])"
  let ?run = "ingest sample_loads
             (init [(''a'', [0, 0]), (''b'', [10, 0]), (''c'', [5, 10])])
             [(''t1'', \<lparr>topic = ''whofi/csi/a/data'', payload = ''m''\<rparr>),
              (''t2'', \<lparr>topic = ''whofi/csi/b/data'', payload = ''m''\<rparr>),
              (''t3'', \<lparr>topic = ''whofi/csi/c/data'', payload = ''m''\<rparr>)]"
  have mem: "?m \<in> set (published ?run)" by (simp add: run_defs)
  from bspec [OF published_result_fields mem] have "result_fields ?m" by blast
  with mem show ?thesis by blast
qed

text \<open>
  After one measurement from each of three nodes at (0,0), (10,0), (5,10) a position is
  published, and it has no field \<open>contributing_node_ids\<close>.
\<close>

theorem published_result_counterexample:
  "published
      (ingest sample_loads
         (init [(''a'', [0, 0]), (''b'', [10, 0]), (''c'', [5, 10])])
         [(''t1'', \<lparr>topic = ''whofi/csi/a/data'', payload = ''m''\<rparr>),
          (''t2'', \<lparr>topic = ''whofi/csi/b/data'', payload = ''m''\<rparr>),
          (''t3'', \<lparr>topic = ''whofi/csi/c/data'', payload = ''m''\<rparr>)])
     = [(''homeassistant/sensor/whofi_position/state'',
           [(''x'', OFloat (Finite 5)), (''y'', OFloat (Finite (375 / 100))),
            (''timestamp'', OStr ''t3''),
            (''confidence'', OFloat (Finite (8 / 10))),
            (''source'', OStr ''csi_trilateration'')]),
          (''homeassistant/device_tracker/whofi_tracker/attributes'',
           [(''latitude'', OFloat (Finite (375 / 10000))),
            (''longitude'', OFloat (Finite (5 / 100))),
            (''gps_accuracy'', OFloat (Finite 2)),
            (''source_type'', OStr ''router'')])]
   \<and> map_of [(''x'', OFloat (Finite 5)), (''y'', OFloat (Finite (375 / 100))),
            (''timestamp'', OStr ''t3''),
            (''confidence'', OFloat (Finite (8 / 10))),
            (''source'', OStr ''csi_trilateration'')] ''contributing_node_ids'' = None"
  by (simp add: run_defs)

subsection \<open>Malformed messages\<close>

lemma make_entry_missing:
  assumes "\<not> set [''timestamp'', ''rssi'', ''channel'', ''rate''] \<subseteq> fst ` set d"
  shows "\<exists>field \<in> set [''timestamp'', ''rssi'', ''channel'', ''rate''].
           make_entry (PDict d) = Inl (KeyError field)"
proof -
  have n: "map_of d ''timestamp'' = None \<or> map_of d ''rssi'' = None
           \<or> map_of d ''channel'' = None \<or> map_of d ''rate'' = None"
    using assms by (auto simp: map_of_eq_None_iff)
  show ?thesis
  proof (cases "map_of d ''timestamp''")
    case None
    then show ?thesis by (simp add: make_entry_def bind_exn_def)
  next
    case t: (Some a)
    show ?thesis
    proof (cases "map_of d ''rssi''")
      case None
      then show ?thesis using t by (simp add: make_entry_def bind_exn_def)
    next
      case r: (Some b)
      show ?thesis
      proof (cases "map_of d ''channel''")
        case None
        then show ?thesis using t r by (simp add: make_entry_def bind_exn_def)
      next
        case c: (Some c)
        then have "map_of d ''rate'' = None" using n t r by simp
        then show ?thesis using t r c by (simp add: make_entry_def bind_exn_def)
      qed
    qed
  qed
qed

lemma map_of_buffer_getitem:
  "map_of buf k = Some b \<Longrightarrow> map_of (buffer_getitem k' buf) k = Some b"
  by (auto simp: buffer_getitem_def split: option.splits)

lemma on_message_raised:
  "on_message_body loads now s msg = (s', Some e) \<Longrightarrow>
   on_message loads now s msg = s'\<lparr>logged := logged s' @ [Error_processing_message e]\<rparr>"
  by (simp add: on_message_def)

lemma on_message_short_topic:
  "length (split_str (CHR ''/'') (topic msg)) < 4 \<Longrightarrow> on_message loads now s msg = s"
  by (simp add: on_message_def on_message_body_def Let_def)

lemma on_message_other_kind:
  assumes "4 \<le> length (split_str (CHR ''/'') (topic msg))"
    and "split_str (CHR ''/'') (topic msg) ! 3 \<noteq> ''data''"
    and "split_str (CHR ''/'') (topic msg) ! 3 \<noteq> ''stats''"
    and "loads (payload msg) = Inr v"
  shows "on_message loads now s msg = s"
  using assms by (simp add: on_message_def on_message_body_def Let_def)

lemma on_message_body_undecodable:
  assumes "4 \<le> length (split_str (CHR ''/'') (topic msg))"
    and "loads (payload msg) = Inl e"
  shows "on_message_body loads now s msg = (s, Some e)"
  using assms by (simp add: on_message_body_def Let_def)

lemma on_message_body_missing_field:
  assumes "4 \<le> length (split_str (CHR ''/'') (topic msg))"
    and "split_str (CHR ''/'') (topic msg) ! 3 = ''data''"
    and "loads (payload msg) = Inr (PDict d)"
    and "\<not> set [''timestamp'', ''rssi'', ''channel'', ''rate''] \<subseteq> fst ` set d"
  shows "\<exists>field \<in> set [''timestamp'', ''rssi'', ''channel'', ''rate''].
           on_message_body loads now s msg
             = (s\<lparr>csi_buffer := buffer_getitem (split_str (CHR ''/'') (topic msg) ! 2) (csi_buffer s)\<rparr>,
                Some (KeyError field))"
proof -
  obtain field where f: "field \<in> set [''timestamp'', ''rssi'', ''channel'', ''rate'']"
    and m: "make_entry (PDict d) = Inl (KeyError field)"
    using make_entry_missing [OF assms(4)] by blast
  have "on_message_body loads now s msg
             = (s\<lparr>csi_buffer := buffer_getitem (split_str (CHR ''/'') (topic msg) ! 2) (csi_buffer s)\<rparr>,
                Some (KeyError field))"
    using assms(1-3) m by (simp add: on_message_body_def process_csi_data_def Let_def)
  with f show ?thesis by blast
qed

text \<open>
  Claim C9, as the code has it. \<open>on_message\<close> returns a state for each of these messages;
  what the body raises is caught and logged. With a topic of fewer than four segments the
  state stays as it was, whatever the payload: nothing is logged. With a topic of at least
  four segments: a fourth segment other than \<open>data\<close> and \<open>stats\<close> and a payload that
  decodes leave the state as it was, and nothing is logged; a payload that does not decode
  raises in the body, and the handler returns the unchanged state with the exception
  logged; a \<open>data\<close> payload that is a dictionary without one of \<open>timestamp\<close>, \<open>rssi\<close>,
  \<open>channel\<close>, \<open>rate\<close> raises a KeyError in the body, after the \<open>defaultdict\<close> access, and
  the handler logs it, publishes nothing, changes no stats record and leaves every
  existing buffer as it was.
\<close>

theorem malformed_message_is_contained:
  "(length (split_str (CHR ''/'') (topic msg)) < 4 \<longrightarrow> on_message loads now s msg = s)
   \<and> (4 \<le> length (split_str (CHR ''/'') (topic msg))
        \<and> split_str (CHR ''/'') (topic msg) ! 3 \<noteq> ''data''
        \<and> split_str (CHR ''/'') (topic msg) ! 3 \<noteq> ''stats''
        \<and> loads (payload msg) = Inr v
      \<longrightarrow> on_message loads now s msg = s)
   \<and> (4 \<le> length (split_str (CHR ''/'') (topic msg)) \<and> loads (payload msg) = Inl e
      \<longrightarrow> on_message_body loads now s msg = (s, Some e)
          \<and> on_message loads now s msg = s\<lparr>logged := logged s @ [Error_processing_message e]\<rparr>)
   \<and> (4 \<le> length (split_str (CHR ''/'') (topic msg))
        \<and> split_str (CHR ''/'') (topic msg) ! 3 = ''data''
        \<and> loads (payload msg) = Inr (PDict d)
        \<and> \<not> set [''timestamp'', ''rssi'', ''channel'', ''rate''] \<subseteq> fst ` set d
      \<longrightarrow> (\<exists>field \<in> set [''timestamp'', ''rssi'', ''channel'', ''rate''].
             on_message_body loads now s msg
               = (s\<lparr>csi_buffer := buffer_getitem (split_str (CHR ''/'') (topic msg) ! 2) (csi_buffer s)\<rparr>,
                  Some (KeyError field))
             \<and> on_message loads now s msg
               = s\<lparr>csi_buffer := buffer_getitem (split_str (CHR ''/'') (topic msg) ! 2) (csi_buffer s),
                    logged := logged s @ [Error_processing_message (KeyError field)]\<rparr>)
          \<and> published (on_message loads now s msg) = published s
          \<and> nodes (on_message loads now s msg) = nodes s
          \<and> (\<forall>k b. map_of (csi_buffer s) k = Some b
                 \<longrightarrow> map_of (csi_buffer (on_message loads now s msg)) k = Some b))"
proof (intro conjI impI)
  assume "length (split_str (CHR ''/'') (topic msg)) < 4"
  then show "on_message loads now s msg = s" by (rule on_message_short_topic)
next
  assume "4 \<le> length (split_str (CHR ''/'') (topic msg))
        \<and> split_str (CHR ''/'') (topic msg) ! 3 \<noteq> ''data''
        \<and> split_str (CHR ''/'') (topic msg) ! 3 \<noteq> ''stats''
        \<and> loads (payload msg) = Inr v"
  then show "on_message loads now s msg = s" using on_message_other_kind by blast
next
  assume a: "4 \<le> length (split_str (CHR ''/'') (topic msg)) \<and> loads (payload msg) = Inl e"
  then show b: "on_message_body loads now s msg = (s, Some e)"
    using on_message_body_undecodable by blast
  show "on_message loads now s msg = s\<lparr>logged := logged s @ [Error_processing_message e]\<rparr>"
    using on_message_raised [OF b] .
next
  assume a: "4 \<le> length (split_str (CHR ''/'') (topic msg))
        \<and> split_str (CHR ''/'') (topic msg) ! 3 = ''data''
        \<and> loads (payload msg) = Inr (PDict d)
        \<and> \<not> set [''timestamp'', ''rssi'', ''channel'', ''rate''] \<subseteq> fst ` set d"
  let ?s1 = "s\<lparr>csi_buffer := buffer_getitem (split_str (CHR ''/'') (topic msg) ! 2) (csi_buffer s)\<rparr>"
  obtain field where f: "field \<in> set [''timestamp'', ''rssi'', ''channel'', ''rate'']"
    and b: "on_message_body loads now s msg = (?s1, Some (KeyError field))"
    using on_message_body_missing_field [of msg loads d now s] a by blast
  have r: "on_message loads now s msg
             = ?s1\<lparr>logged := logged ?s1 @ [Error_processing_message (KeyError field)]\<rparr>"
    using b by (rule on_message_raised)
  show "\<exists>field \<in> set [''timestamp'', ''rssi'', ''channel'', ''rate''].
             on_message_body loads now s msg = (?s1, Some (KeyError field))
             \<and> on_message loads now s msg
               = s\<lparr>csi_buffer := buffer_getitem (split_str (CHR ''/'') (topic msg) ! 2) (csi_buffer s),
                    logged := logged s @ [Error_processing_message (KeyError field)]\<rparr>"
    using f b r by auto
  show "published (on_message loads now s msg) = published s" unfolding r by simp
  show "nodes (on_message loads now s msg) = nodes s" unfolding r by simp
  show "\<forall>k b. map_of (csi_buffer s) k = Some b
                 \<longrightarrow> map_of (csi_buffer (on_message loads now s msg)) k = Some b"
    unfolding r by (simp add: map_of_buffer_getitem)
qed

theorem malformed_message_is_contained_witness:
  "(length (split_str (CHR ''/'') (topic \<lparr>topic = ''whofi/csi'', payload = ''{''\<rparr>)) < 4
    \<and> on_message sample_loads ''t1'' (init [(''a'', [0, 0])])
         \<lparr>topic = ''whofi/csi'', payload = ''{''\<rparr> = init [(''a'', [0, 0])])
   \<and> (4 \<le> length (split_str (CHR ''/'') (topic \<lparr>topic = ''whofi/csi/a/other'', payload = ''m''\<rparr>))
    \<and> split_str (CHR ''/'') (topic \<lparr>topic = ''whofi/csi/a/other'', payload = ''m''\<rparr>) ! 3 \<noteq> ''data''
    \<and> split_str (CHR ''/'') (topic \<lparr>topic = ''whofi/csi/a/other'', payload = ''m''\<rparr>) ! 3 \<noteq> ''stats''
    \<and> sample_loads (payload \<lparr>topic = ''whofi/csi/a/other'', payload = ''m''\<rparr>)
         = Inr (PDict [(''timestamp'', PNum 1), (''rssi'', PNum (- 50)),
                       (''channel'', PNum 6), (''rate'', PNum 11)])
    \<and> on_message sample_loads ''t1'' (init [(''a'', [0, 0])])
         \<lparr>topic = ''whofi/csi/a/other'', payload = ''m''\<rparr> = init [(''a'', [0, 0])])
   \<and> (4 \<le> length (split_str (CHR ''/'') (topic \<lparr>topic = ''whofi/csi/a/data'', payload = ''{''\<rparr>))
    \<and> sample_loads (payload \<lparr>topic = ''whofi/csi/a/data'', payload = ''{''\<rparr>) = Inl JSONDecodeError
    \<and> on_message sample_loads ''t1'' (init [(''a'', [0, 0])])
         \<lparr>topic = ''whofi/csi/a/data'', payload = ''{''\<rparr>
        = (init [(''a'', [0, 0])])\<lparr>logged := logged (init [(''a'', [0, 0])])
             @ [Error_processing_message JSONDecodeError]\<rparr>)
   \<and> (4 \<le> length (split_str (CHR ''/'') (topic \<lparr>topic = ''whofi/csi/a/data'', payload = ''p''\<rparr>))
    \<and> split_str (CHR ''/'') (topic \<lparr>topic = ''whofi/csi/a/data'', payload = ''p''\<rparr>) ! 3 = ''data''
    \<and> \<not> set [''timestamp'', ''rssi'', ''channel'', ''rate''] \<subseteq> fst ` set [(''timestamp'', PNum 1)]
    \<and> map_of (csi_buffer \<lparr>node_positions = [(''a'', [0, 0])], nodes = [],
           csi_buffer = [(''b'', [\<lparr>timestamp = PNum 1, rssi = PNum (- 50), csi_data = PList [], channel = PNum 6, rate = PNum 11\<rparr>])],
           published = [], logged = []\<rparr>) ''b'' = Some [\<lparr>timestamp = PNum 1, rssi = PNum (- 50), csi_data = PList [], channel = PNum 6, rate = PNum 11\<rparr>]
    \<and> published (on_message (\<lambda>p. Inr (PDict [(''timestamp'', PNum 1)])) ''t1''
         \<lparr>node_positions = [(''a'', [0, 0])], nodes = [],
           csi_buffer = [(''b'', [\<lparr>timestamp = PNum 1, rssi = PNum (- 50), csi_data = PList [], channel = PNum 6, rate = PNum 11\<rparr>])],
           published = [], logged = []\<rparr> \<lparr>topic = ''whofi/csi/a/data'', payload = ''p''\<rparr>) = []
    \<and> map_of (csi_buffer (on_message (\<lambda>p. Inr (PDict [(''timestamp'', PNum 1)])) ''t1''
         \<lparr>node_positions = [(''a'', [0, 0])], nodes = [],
           csi_buffer = [(''b'', [\<lparr>timestamp = PNum 1, rssi = PNum (- 50), csi_data = PList [], channel = PNum 6, rate = PNum 11\<rparr>])],
           published = [], logged = []\<rparr> \<lparr>topic = ''whofi/csi/a/data'', payload = ''p''\<rparr>)) ''b'' = Some [\<lparr>timestamp = PNum 1, rssi = PNum (- 50), csi_data = PList [], channel = PNum 6, rate = PNum 11\<rparr>])"
proof -
  let ?s = "init [(''a'', [0, 0])]"
  let ?s4 = "\<lparr>node_positions = [(''a'', [0, 0])], nodes = [],
           csi_buffer = [(''b'', [\<lparr>timestamp = PNum 1, rssi = PNum (- 50), csi_data = PList [], channel = PNum 6, rate = PNum 11\<rparr>])],
           published = [], logged = []\<rparr>"
  let ?m1 = "\<lparr>topic = ''whofi/csi'', payload = ''{''\<rparr>"
  let ?m2 = "\<lparr>topic = ''whofi/csi/a/other'', payload = ''m''\<rparr>"
  let ?m3 = "\<lparr>topic = ''whofi/csi/a/data'', payload = ''{''\<rparr>"
  let ?m4 = "\<lparr>topic = ''whofi/csi/a/data'', payload = ''p''\<rparr>"
  let ?full = "PDict [(''timestamp'', PNum 1), (''rssi'', PNum (- 50)),
                       (''channel'', PNum 6), (''rate'', PNum 11)]"
  let ?part = "\<lambda>p :: string. (Inr (PDict [(''timestamp'', PNum 1)]) :: exn + pyval)"
  have h1: "length (split_str (CHR ''/'') (topic ?m1)) < 4" by simp
  have h2: "4 \<le> length (split_str (CHR ''/'') (topic ?m2))
    \<and> split_str (CHR ''/'') (topic ?m2) ! 3 \<noteq> ''data''
    \<and> split_str (CHR ''/'') (topic ?m2) ! 3 \<noteq> ''stats''
    \<and> sample_loads (payload ?m2) = Inr ?full" by (simp add: sample_loads_def)
  have h3: "4 \<le> length (split_str (CHR ''/'') (topic ?m3))
    \<and> sample_loads (payload ?m3) = Inl JSONDecodeError" by (simp add: sample_loads_def)
  have h4: "4 \<le> length (split_str (CHR ''/'') (topic ?m4))
    \<and> split_str (CHR ''/'') (topic ?m4) ! 3 = ''data''
    \<and> ?part (payload ?m4) = Inr (PDict [(''timestamp'', PNum 1)])
    \<and> \<not> set [''timestamp'', ''rssi'', ''channel'', ''rate''] \<subseteq> fst ` set [(''timestamp'', PNum 1)]"
    by simp
  have h5: "map_of (csi_buffer ?s4) ''b'' = Some [\<lparr>timestamp = PNum 1, rssi = PNum (- 50), csi_data = PList [], channel = PNum 6, rate = PNum 11\<rparr>]" by simp
  have c1: "on_message sample_loads ''t1'' ?s ?m1 = ?s"
    using h1 malformed_message_is_contained [of ?m1 sample_loads "''t1''" ?s] by blast
  have c2: "on_message sample_loads ''t1'' ?s ?m2 = ?s"
    using h2 malformed_message_is_contained [of ?m2 sample_loads "''t1''" ?s ?full] by blast
  have c3: "on_message sample_loads ''t1'' ?s ?m3
              = ?s\<lparr>logged := logged ?s @ [Error_processing_message JSONDecodeError]\<rparr>"
    using h3 malformed_message_is_contained [of ?m3 sample_loads "''t1''" ?s _ JSONDecodeError]
    by blast
  note t4 = malformed_message_is_contained [of ?m4 ?part "''t1''" ?s4 _ _ "[(''timestamp'', PNum 1)]"]
  have c4: "published (on_message ?part ''t1'' ?s4 ?m4) = published ?s4"
    using h4 t4 by blast
  then have c4': "published (on_message ?part ''t1'' ?s4 ?m4) = []" by simp
  have c5: "map_of (csi_buffer (on_message ?part ''t1'' ?s4 ?m4)) ''b'' = Some [\<lparr>timestamp = PNum 1, rssi = PNum (- 50), csi_data = PList [], channel = PNum 6, rate = PNum 11\<rparr>]"
    using h4 h5 t4 by blast
  from h1 h2 h3 h4 h5 c1 c2 c3 c4' c5 show ?thesis by blast
qed

text \<open>
  A message whose topic has two segments is not logged, although its payload does not
  decode. And a bad input can change a later result: with four configured nodes, a \<open>data\<close>
  message of node \<open>d\<close> that lacks fields, handled first, puts \<open>d\<close> first in \<open>csi_buffer\<close>;
  when complete measurements of \<open>a\<close>, \<open>b\<close>, \<open>c\<close> and then \<open>d\<close> follow, the last solve is on
  \<open>d\<close>, \<open>a\<close>, \<open>b\<close> and gives (5, 5), where without the bad message it is on \<open>a\<close>, \<open>b\<close>,
  \<open>c\<close> and gives (5, 3.75).
\<close>

theorem malformed_message_counterexample:
  "logged (on_message sample_loads ''t1'' (init [(''a'', [0, 0])])
             \<lparr>topic = ''whofi/csi'', payload = ''{''\<rparr>) = []
   \<and> map snd (published
        (ingest sample_loads_partial
           (init [(''a'', [0, 0]), (''b'', [10, 0]), (''c'', [5, 10]), (''d'', [0, 10])])
           [(''t0'', \<lparr>topic = ''whofi/csi/d/data'', payload = ''p''\<rparr>),
            (''t1'', \<lparr>topic = ''whofi/csi/a/data'', payload = ''m''\<rparr>),
            (''t2'', \<lparr>topic = ''whofi/csi/b/data'', payload = ''m''\<rparr>),
            (''t3'', \<lparr>topic = ''whofi/csi/c/data'', payload = ''m''\<rparr>),
            (''t4'', \<lparr>topic = ''whofi/csi/d/data'', payload = ''m''\<rparr>)])) ! 2
       = [(''x'', OFloat (Finite 5)), (''y'', OFloat (Finite 5)),
          (''timestamp'', OStr ''t4''), (''confidence'', OFloat (Finite (8 / 10))),
          (''source'', OStr ''csi_trilateration'')]
   \<and> map snd (published
        (ingest sample_loads_partial
           (init [(''a'', [0, 0]), (''b'', [10, 0]), (''c'', [5, 10]), (''d'', [0, 10])])
           [(''t1'', \<lparr>topic = ''whofi/csi/a/data'', payload = ''m''\<rparr>),
            (''t2'', \<lparr>topic = ''whofi/csi/b/data'', payload = ''m''\<rparr>),
            (''t3'', \<lparr>topic = ''whofi/csi/c/data'', payload = ''m''\<rparr>),
            (''t4'', \<lparr>topic = ''whofi/csi/d/data'', payload = ''m''\<rparr>)])) ! 2
       = [(''x'', OFloat (Finite 5)), (''y'', OFloat (Finite (375 / 100))),
          (''timestamp'', OStr ''t4''), (''confidence'', OFloat (Finite (8 / 10))),
          (''source'', OStr ''csi_trilateration'')]"
  by (simp add: run_defs sample_loads_partial_def)

text \<open>
  Claim C10. A \<open>data\<close> message for a node without a buffer, whose payload is a dictionary
  that lacks a required field, leaves a new empty buffer for that node at the end of
  \<open>csi_buffer\<close> and publishes nothing. The entry counts in the check
  \<open>len(self.csi_buffer) >= 3\<close>: with two buffers before the message, a later complete
  measurement of one of those two nodes runs \<open>calculate_position\<close>, which it would not
  have done without the message.
\<close>

theorem malformed_data_creates_empty_buffer:
  assumes "4 \<le> length (split_str (CHR ''/'') (topic msg))"
    and "split_str (CHR ''/'') (topic msg) ! 3 = ''data''"
    and "loads (payload msg) = Inr (PDict d)"
    and "\<not> set [''timestamp'', ''rssi'', ''channel'', ''rate''] \<subseteq> fst ` set d"
    and "map_of (csi_buffer s) (split_str (CHR ''/'') (topic msg) ! 2) = None"
  shows "csi_buffer (on_message loads now s msg)
           = csi_buffer s @ [(split_str (CHR ''/'') (topic msg) ! 2, [])]
         \<and> published (on_message loads now s msg) = published s
         \<and> (\<forall>now' k data entry.
               length (csi_buffer s) = 2 \<and> map_of (csi_buffer s) k \<noteq> None
               \<and> make_entry data = Inr entry
              \<longrightarrow> process_csi_data now' s k data
                    = (s\<lparr>csi_buffer := buffer_append k entry (csi_buffer s)\<rparr>, None)
                \<and> process_csi_data now' (on_message loads now s msg) k data
                    = (calculate_position now'
                         ((on_message loads now s msg)
                            \<lparr>csi_buffer := buffer_append k entry (csi_buffer (on_message loads now s msg))\<rparr>),
                       None))"
proof -
  let ?node = "split_str (CHR ''/'') (topic msg) ! 2"
  let ?s' = "on_message loads now s msg"
  obtain field where
    b: "on_message_body loads now s msg
          = (s\<lparr>csi_buffer := buffer_getitem ?node (csi_buffer s)\<rparr>, Some (KeyError field))"
    using on_message_body_missing_field [of msg loads d now s] assms(1-4) by blast
  have r: "?s' = s\<lparr>csi_buffer := buffer_getitem ?node (csi_buffer s),
                   logged := logged s @ [Error_processing_message (KeyError field)]\<rparr>"
    using on_message_raised [OF b] by simp
  have g: "buffer_getitem ?node (csi_buffer s) = csi_buffer s @ [(?node, [])]"
    using assms(5) by (simp add: buffer_getitem_def)
  have 1: "csi_buffer ?s' = csi_buffer s @ [(?node, [])]" unfolding r g by simp
  have 2: "published ?s' = published s" unfolding r by simp
  have 3: "process_csi_data now' s k data
                    = (s\<lparr>csi_buffer := buffer_append k entry (csi_buffer s)\<rparr>, None)
           \<and> process_csi_data now' ?s' k data
                    = (calculate_position now'
                         (?s'\<lparr>csi_buffer := buffer_append k entry (csi_buffer ?s')\<rparr>), None)"
    if h: "length (csi_buffer s) = 2 \<and> map_of (csi_buffer s) k \<noteq> None \<and> make_entry data = Inr entry"
    for now' k data entry
  proof -
    have k: "buffer_getitem k (csi_buffer s) = csi_buffer s"
      using h by (auto simp: buffer_getitem_def)
    have k': "buffer_getitem k (csi_buffer ?s') = csi_buffer ?s'"
      using h unfolding 1 by (auto simp: buffer_getitem_def)
    have l: "length (buffer_append k entry buf) = length buf" for buf
      using keys_buffer_append [of k entry buf] by (metis length_map)
    have a: "process_csi_data now' s k data
                    = (s\<lparr>csi_buffer := buffer_append k entry (csi_buffer s)\<rparr>, None)"
      using h by (simp add: process_csi_data_def Let_def k l)
    have b: "process_csi_data now' ?s' k data
                    = (calculate_position now'
                         (?s'\<lparr>csi_buffer := buffer_append k entry (csi_buffer ?s')\<rparr>), None)"
      using h by (simp add: process_csi_data_def Let_def k' l) (simp add: 1)
    from a b show ?thesis by blast
  qed
  from 1 2 3 show ?thesis by blast
qed

theorem malformed_data_creates_empty_buffer_witness:
  "4 \<le> length (split_str (CHR ''/'') (topic \<lparr>topic = ''whofi/csi/x/data'', payload = ''p''\<rparr>))
   \<and> split_str (CHR ''/'') (topic \<lparr>topic = ''whofi/csi/x/data'', payload = ''p''\<rparr>) ! 3 = ''data''
   \<and> \<not> set [''timestamp'', ''rssi'', ''channel'', ''rate''] \<subseteq> fst ` set [(''timestamp'', PNum 1)]
   \<and> map_of (csi_buffer \<lparr>node_positions = [(''a'', [0, 0])], nodes = [],
          csi_buffer = [(''a'', []), (''b'', [])], published = [], logged = []\<rparr>)
        (split_str (CHR ''/'') (topic \<lparr>topic = ''whofi/csi/x/data'', payload = ''p''\<rparr>) ! 2) = None
   \<and> csi_buffer (on_message (\<lambda>p. Inr (PDict [(''timestamp'', PNum 1)])) ''t1''
        \<lparr>node_positions = [(''a'', [0, 0])], nodes = [],
          csi_buffer = [(''a'', []), (''b'', [])], published = [], logged = []\<rparr> \<lparr>topic = ''whofi/csi/x/data'', payload = ''p''\<rparr>)
       = [(''a'', []), (''b'', []), (''x'', [])]
   \<and> length (csi_buffer \<lparr>node_positions = [(''a'', [0, 0])], nodes = [],
          csi_buffer = [(''a'', []), (''b'', [])], published = [], logged = []\<rparr>) = 2
   \<and> map_of (csi_buffer \<lparr>node_positions = [(''a'', [0, 0])], nodes = [],
          csi_buffer = [(''a'', []), (''b'', [])], published = [], logged = []\<rparr>) ''a'' \<noteq> None
   \<and> make_entry (PDict [(''timestamp'', PNum 1), (''rssi'', PStr ''weak''),
                 (''channel'', PNum 6), (''rate'', PNum 11)]) = Inr \<lparr>timestamp = PNum 1, rssi = PStr ''weak'', csi_data = PList [], channel = PNum 6,
           rate = PNum 11\<rparr>
   \<and> logged (fst (process_csi_data ''t2'' \<lparr>node_positions = [(''a'', [0, 0])], nodes = [],
          csi_buffer = [(''a'', []), (''b'', [])], published = [], logged = []\<rparr> ''a'' (PDict [(''timestamp'', PNum 1), (''rssi'', PStr ''weak''),
                 (''channel'', PNum 6), (''rate'', PNum 11)]))) = []
   \<and> logged (fst (process_csi_data ''t2''
        (on_message (\<lambda>p. Inr (PDict [(''timestamp'', PNum 1)])) ''t1''
           \<lparr>node_positions = [(''a'', [0, 0])], nodes = [],
          csi_buffer = [(''a'', []), (''b'', [])], published = [], logged = []\<rparr> \<lparr>topic = ''whofi/csi/x/data'', payload = ''p''\<rparr>) ''a'' (PDict [(''timestamp'', PNum 1), (''rssi'', PStr ''weak''),
                 (''channel'', PNum 6), (''rate'', PNum 11)])))
       = [Error_processing_message (KeyError ''rssi''), Error_calculating_position TypeError]"
proof -
  let ?s = "\<lparr>node_positions = [(''a'', [0, 0])], nodes = [],
          csi_buffer = [(''a'', []), (''b'', [])], published = [], logged = []\<rparr>"
  let ?msg = "\<lparr>topic = ''whofi/csi/x/data'', payload = ''p''\<rparr>"
  let ?loads = "\<lambda>p :: string. (Inr (PDict [(''timestamp'', PNum 1)]) :: exn + pyval)"
  let ?full = "(PDict [(''timestamp'', PNum 1), (''rssi'', PStr ''weak''),
                 (''channel'', PNum 6), (''rate'', PNum 11)])"
  let ?entry = "\<lparr>timestamp = PNum 1, rssi = PStr ''weak'', csi_data = PList [], channel = PNum 6,
           rate = PNum 11\<rparr>"
  let ?s' = "on_message ?loads ''t1'' ?s ?msg"
  have h1: "4 \<le> length (split_str (CHR ''/'') (topic ?msg))" by simp
  have h2: "split_str (CHR ''/'') (topic ?msg) ! 3 = ''data''" by simp
  have h3: "?loads (payload ?msg) = Inr (PDict [(''timestamp'', PNum 1)])" by simp
  have h4: "\<not> set [''timestamp'', ''rssi'', ''channel'', ''rate''] \<subseteq> fst ` set [(''timestamp'', PNum 1)]"
    by simp
  have h5: "map_of (csi_buffer ?s) (split_str (CHR ''/'') (topic ?msg) ! 2) = None" by simp
  have h6: "length (csi_buffer ?s) = 2" by simp
  have h7: "map_of (csi_buffer ?s) ''a'' \<noteq> None" by simp
  have h8: "make_entry ?full = Inr ?entry" by (simp add: make_entry_def bind_exn_def)
  note t = malformed_data_creates_empty_buffer [of ?msg ?loads _ ?s "''t1''", OF h1 h2 h3 h4 h5]
  have "csi_buffer ?s' = csi_buffer ?s @ [(split_str (CHR ''/'') (topic ?msg) ! 2, [])]"
    using t by blast
  then have c1: "csi_buffer ?s' = [(''a'', []), (''b'', []), (''x'', [])]" by simp
  have p: "process_csi_data ''t2'' ?s ''a'' ?full
                    = (?s\<lparr>csi_buffer := buffer_append ''a'' ?entry (csi_buffer ?s)\<rparr>, None)
           \<and> process_csi_data ''t2'' ?s' ''a'' ?full
                    = (calculate_position ''t2''
                         (?s'\<lparr>csi_buffer := buffer_append ''a'' ?entry (csi_buffer ?s')\<rparr>), None)"
    using t h6 h7 h8 by blast
  have c2: "logged (fst (process_csi_data ''t2'' ?s ''a'' ?full)) = []"
    using p by simp
  have l: "logged ?s' = [Error_processing_message (KeyError ''rssi'')]"
    by (simp add: run_defs)
  have "logged (calculate_position ''t2''
                  (?s'\<lparr>csi_buffer := buffer_append ''a'' ?entry (csi_buffer ?s')\<rparr>))
        = [Error_processing_message (KeyError ''rssi''), Error_calculating_position TypeError]"
    unfolding c1 using l by (simp add: run_defs)
  then have c3: "logged (fst (process_csi_data ''t2'' ?s' ''a'' ?full))
       = [Error_processing_message (KeyError ''rssi''), Error_calculating_position TypeError]"
    using p by simp
  from h1 h2 h4 h5 c1 h6 h7 h8 c2 c3 show ?thesis by (intro conjI)
qed

end
